theory Spec2Isabelle
  imports Main "HOL-Library.Sublist"
begin

section \<open>The RDM content provider (repo2docker/contentproviders/rdm.py)\<close>

text \<open>
  A shallow embedding of the class \<^verbatim>\<open>RDM\<close>. Python strings are lists of the bytes of
  their UTF-8 encoding; every string operation the source uses (\<^verbatim>\<open>startswith\<close>,
  \<^verbatim>\<open>endswith\<close>, \<^verbatim>\<open>in\<close> with an ASCII needle, \<^verbatim>\<open>split("/", 1)\<close>, slicing at the
  position of an ASCII character, concatenation) gives the same result on bytes as on
  code points. Exceptions are values of the type \<open>error\<close>; a function that can raise
  returns a sum with the exception on the left.

  Private methods lose their leading underscore, which an Isabelle name cannot start
  with: \<^verbatim>\<open>_check_ref_defined\<close> is \<open>p_check_ref_defined\<close>, \<^verbatim>\<open>_fetch\<close> is \<open>p_fetch\<close>,
  \<^verbatim>\<open>_fetch_storage\<close> is \<open>p_fetch_storage\<close> and \<^verbatim>\<open>_fetch_with_error\<close> is
  \<open>p_fetch_with_error\<close>.
\<close>

subsection \<open>JSON values and Python's dynamic operations on them\<close>

text \<open>
  What \<^verbatim>\<open>json.load\<close> returns: \<^verbatim>\<open>None\<close>, a bool, a number, a string, a list or a dict.
  A dict is an association list read with \<open>map_of\<close>. Numbers are integers here;
  a float behaves like an integer under every operation below (it is no container).
\<close>

datatype json =
    JNull
  | JBool bool
  | JNum int
  | JStr string
  | JArr "json list"
  | JObj "(string \<times> json) list"

text \<open>
  \<open>ValueError_dumps p j\<close> is \<^verbatim>\<open>ValueError(p + json.dumps(j))\<close>: the serialisation of \<open>j\<close>
  is kept as the value itself. \<open>OSError\<close> and \<open>ExternalError\<close> stand for exceptions of the
  operating system and of the libraries the module calls.
\<close>

datatype error =
    ValueError string
  | ValueError_dumps string json
  | RuntimeError string
  | TypeError
  | KeyError string
  | AttributeError
  | OSError string
  | ExternalError string

definition startswith :: "string \<Rightarrow> string \<Rightarrow> bool" where
  "startswith s p = (take (length p) s = p)"

definition endswith :: "string \<Rightarrow> string \<Rightarrow> bool" where
  "endswith s p = (length p \<le> length s \<and> drop (length s - length p) s = p)"

text \<open>\<^verbatim>\<open>needle in s\<close> for two strings: \<open>needle\<close> occurs in \<open>s\<close> as a substring.\<close>

fun str_contains :: "string \<Rightarrow> string \<Rightarrow> bool" where
  "str_contains [] needle = (needle = [])"
| "str_contains (c # cs) needle = (startswith (c # cs) needle \<or> str_contains cs needle)"

text \<open>
  \<^verbatim>\<open>key in v\<close> for a string \<open>key\<close>: key membership on a dict, substring test on a string,
  element membership on a list, \<^verbatim>\<open>TypeError\<close> on anything else.
\<close>

fun py_in :: "string \<Rightarrow> json \<Rightarrow> error + bool" where
  "py_in key (JObj kvs) = Inr (map_of kvs key \<noteq> None)"
| "py_in key (JStr s) = Inr (str_contains s key)"
| "py_in key (JArr xs) = Inr (JStr key \<in> set xs)"
| "py_in key v = Inl TypeError"

text \<open>
  \<^verbatim>\<open>v[key]\<close> for a string \<open>key\<close>: the value on a dict (\<^verbatim>\<open>KeyError\<close> when absent),
  \<^verbatim>\<open>TypeError\<close> on anything else.
\<close>

fun subscript :: "json \<Rightarrow> string \<Rightarrow> error + json" where
  "subscript (JObj kvs) key =
     (case map_of kvs key of None \<Rightarrow> Inl (KeyError key) | Some v \<Rightarrow> Inr v)"
| "subscript v key = Inl TypeError"

text \<open>
  \<^verbatim>\<open>for x in v\<close>: the elements of a list, the keys of a dict, the characters of a string
  (one per byte here), \<^verbatim>\<open>TypeError\<close> on anything else.
\<close>

fun py_iter :: "json \<Rightarrow> error + json list" where
  "py_iter (JArr xs) = Inr xs"
| "py_iter (JObj kvs) = Inr (map (\<lambda>kv. JStr (fst kv)) kvs)"
| "py_iter (JStr s) = Inr (map (\<lambda>c. JStr [c]) s)"
| "py_iter v = Inl TypeError"

fun is_list :: "json \<Rightarrow> bool" where
  "is_list (JArr xs) = True"
| "is_list v = False"

fun is_str :: "json \<Rightarrow> bool" where
  "is_str (JStr s) = True"
| "is_str v = False"

fun the_str :: "json \<Rightarrow> string" where
  "the_str (JStr s) = s"
| "the_str v = []"

subsection \<open>Construction: \<^verbatim>\<open>RDM.__init__\<close>\<close>

text \<open>
  The process environment as \<^verbatim>\<open>__init__\<close> and \<^verbatim>\<open>_fetch\<close> see it. \<open>RDM_HOSTS\<close> is \<open>None\<close>
  when the variable is unset, and otherwise what opening the file it names and
  \<^verbatim>\<open>json.load\<close> give: the value, or the exception raised. \<open>RDM_HOSTS_JSON\<close> likewise for
  \<^verbatim>\<open>json.loads\<close> of the variable's text.
\<close>

record environ =
  RDM_HOSTS :: "(error + json) option"
  RDM_HOSTS_JSON :: "(error + json) option"
  OSF_TOKEN :: "string option"

text \<open>
  The instance: \<open>hosts\<close>, and the attributes \<^verbatim>\<open>detect\<close> sets, absent until it has run.
\<close>

record rdm =
  hosts :: json
  project_id :: "string option"
  path :: "string option"
  uuid :: "string option"

definition default_hosts :: json where
  "default_hosts =
     JArr [JObj [(''hostname'', JArr [JStr ''https://test.some.host.nii.ac.jp/'']),
                 (''api'', JStr ''https://api.test.some.host.nii.ac.jp/v2/'')]]"

text \<open>Lines 29-33: the file overrides the default, the inline JSON overrides both.\<close>

definition load_hosts :: "environ \<Rightarrow> error + json" where
  "load_hosts env =
     (case RDM_HOSTS env of
        Some (Inl e) \<Rightarrow> Inl e
      | from_file \<Rightarrow>
          (case RDM_HOSTS_JSON env of
             Some r \<Rightarrow> r
           | None \<Rightarrow> (case from_file of Some r \<Rightarrow> r | None \<Rightarrow> Inr default_hosts)))"

text \<open>Lines 35-45: the loop over the hosts; \<open>None\<close> when no host raises.\<close>

fun check_hosts :: "json list \<Rightarrow> error option" where
  "check_hosts [] = None"
| "check_hosts (host # rest) =
     (case py_in ''hostname'' host of
        Inl e \<Rightarrow> Some e
      | Inr has_hostname \<Rightarrow>
          if \<not> has_hostname then Some (ValueError_dumps ''No hostname: '' host)
          else (case subscript host ''hostname'' of
                  Inl e \<Rightarrow> Some e
                | Inr hostname \<Rightarrow>
                    if \<not> is_list hostname
                    then Some (ValueError_dumps ''hostname should be list of string: '' hostname)
                    else (case py_in ''api'' host of
                            Inl e \<Rightarrow> Some e
                          | Inr has_api \<Rightarrow>
                              if \<not> has_api then Some (ValueError_dumps ''No api: '' host)
                              else check_hosts rest)))"

definition init :: "environ \<Rightarrow> error + rdm" where
  "init env =
     (case load_hosts env of
        Inl e \<Rightarrow> Inl e
      | Inr h \<Rightarrow>
          (case (case h of JArr hs \<Rightarrow> check_hosts hs | _ \<Rightarrow> None) of
             Some e \<Rightarrow> Inl e
           | None \<Rightarrow> Inr \<lparr>hosts = h, project_id = None, path = None, uuid = None\<rparr>))"

subsection \<open>Locator detection: \<^verbatim>\<open>RDM.detect\<close>\<close>

record fetch_spec =
  spec_project_id :: string
  spec_path :: string
  spec_host :: json
  spec_uuid :: string

definition p_check_ref_defined :: "string option \<Rightarrow> bool" where
  "p_check_ref_defined ref = (if ref = None \<or> ref = Some ''HEAD'' then False else True)"

text \<open>
  Line 50, \<^verbatim>\<open>any([source.startswith(s) for s in host["hostname"]])\<close>. The list is built
  in full before \<^verbatim>\<open>any\<close> looks at it, so a prefix that is no string raises
  \<^verbatim>\<open>TypeError\<close> wherever it stands.
\<close>

definition host_matches :: "string \<Rightarrow> json \<Rightarrow> error + bool" where
  "host_matches source host =
     (case subscript host ''hostname'' of
        Inl e \<Rightarrow> Inl e
      | Inr hostname \<Rightarrow>
          (case py_iter hostname of
             Inl e \<Rightarrow> Inl e
           | Inr ss \<Rightarrow>
               if list_all is_str ss
               then Inr (list_ex (\<lambda>s. startswith source (the_str s)) ss)
               else Inl TypeError))"

text \<open>The loop of line 49: the first host that matches, if any.\<close>

fun find_host :: "string \<Rightarrow> json list \<Rightarrow> error + json option" where
  "find_host source [] = Inr None"
| "find_host source (host # rest) =
     (case host_matches source host of
        Inl e \<Rightarrow> Inl e
      | Inr m \<Rightarrow> if m then Inr (Some host) else find_host source rest)"

text \<open>\<^verbatim>\<open>s.index(c)\<close> for a character that occurs in \<open>s\<close>.\<close>

definition index :: "string \<Rightarrow> char \<Rightarrow> nat" where
  "index s c = length (takeWhile (\<lambda>x. x \<noteq> c) s)"

text \<open>
  Lines 52-59, from the \<^verbatim>\<open>path\<close> component of the parsed URL to the project id and the
  sub-path. \<^verbatim>\<open>path.split("/", 1)\<close> cuts at the first slash.
\<close>

definition split_path :: "string \<Rightarrow> string \<times> string" where
  "split_path upath =
     (let path = (if startswith upath ''/'' then drop 1 upath else upath) in
      if CHR ''/'' \<in> set path
      then (let project_id = take (index path CHR ''/'') path;
                rest = drop (index path CHR ''/'' + 1) path
            in (project_id,
                if startswith rest ''files/'' then drop (length ''files/'') rest else rest))
      else (path, []))"

text \<open>
  \<^verbatim>\<open>detect\<close>. Two library calls are parameters: \<open>urlparse\<close> gives the \<^verbatim>\<open>path\<close>
  component of \<^verbatim>\<open>urllib.parse.urlparse(source)\<close> or the exception it raises, and
  \<open>uuid1 n\<close> is the text of the \<open>n\<close>-th identifier \<^verbatim>\<open>uuid.uuid1()\<close> hands out in this
  process; the number of identifiers handed out so far is threaded through. The result
  is the returned value (\<open>None\<close> for no match), the instance with its attributes set,
  and the new count.
\<close>

definition detect ::
  "(string \<Rightarrow> error + string) \<Rightarrow> (nat \<Rightarrow> string) \<Rightarrow> rdm \<Rightarrow> nat \<Rightarrow> string \<Rightarrow> string option
     \<Rightarrow> (error + fetch_spec option) \<times> rdm \<times> nat" where
  "detect urlparse uuid1 self n source ref =
     (case py_iter (hosts self) of
        Inl e \<Rightarrow> (Inl e, self, n)
      | Inr hs \<Rightarrow>
          (case find_host source hs of
             Inl e \<Rightarrow> (Inl e, self, n)
           | Inr None \<Rightarrow> (Inr None, self, n)
           | Inr (Some host) \<Rightarrow>
               (case urlparse source of
                  Inl e \<Rightarrow> (Inl e, self, n)
                | Inr upath \<Rightarrow>
                    (let (pid, sub) = split_path upath;
                         (u, n') = (if p_check_ref_defined ref then (the ref, n)
                                    else (uuid1 n, Suc n))
                     in (Inr (Some \<lparr>spec_project_id = pid, spec_path = sub,
                                    spec_host = host, spec_uuid = u\<rparr>),
                         self\<lparr>project_id := Some pid, path := Some sub, uuid := Some u\<rparr>,
                         n')))))"

subsection \<open>Content identity: \<^verbatim>\<open>RDM.content_id\<close>\<close>

text \<open>Reading an attribute that \<^verbatim>\<open>detect\<close> has not set raises \<^verbatim>\<open>AttributeError\<close>.\<close>

definition content_id :: "rdm \<Rightarrow> error + string" where
  "content_id self =
     (case project_id self of
        None \<Rightarrow> Inl AttributeError
      | Some pid \<Rightarrow>
          (case uuid self of
             None \<Rightarrow> Inl AttributeError
           | Some u \<Rightarrow> Inr (pid @ ''-'' @ u)))"

subsection \<open>The remote service and the local file system\<close>

text \<open>
  What the remote client shows of a file: its \<^verbatim>\<open>name\<close>, its remote \<^verbatim>\<open>path\<close>, and what
  \<^verbatim>\<open>write_to\<close> does: the bytes it writes to the open file, then the exception it
  raises, if any.
\<close>

datatype rfile =
  File (file_name: string) (file_path: string) (file_write_to: "string \<times> error option")

text \<open>
  A \<^verbatim>\<open>Storage\<close> or a \<^verbatim>\<open>Folder\<close>: its name, and the two asynchronous listings
  \<^verbatim>\<open>files\<close> and \<^verbatim>\<open>folders\<close>. A listing is the items it yields, then the exception
  that ends it early, if any.
\<close>

datatype rfolder =
  Folder (folder_name: string)
         (files: "rfile list") (files_error: "error option")
         (folders: "rfolder list") (folders_error: "error option")

text \<open>A project: \<^verbatim>\<open>project.storage(name)\<close> and the listing \<^verbatim>\<open>project.storages\<close>.\<close>

datatype project =
  Project (storage: "string \<Rightarrow> error + rfolder")
          (storages: "rfolder list") (storages_error: "error option")

text \<open>
  The client library: \<open>OSF token base_url\<close> is the client object, a function from a
  project id to \<^verbatim>\<open>osf.project(id)\<close>; \<open>find_by_path\<close> is \<^verbatim>\<open>osfclient.utils.find_by_path\<close>,
  returning \<open>None\<close> for a path it does not find.
\<close>

record remote =
  OSF :: "json \<Rightarrow> string \<Rightarrow> error + (string \<Rightarrow> error + project)"
  find_by_path :: "rfolder \<Rightarrow> string \<Rightarrow> error + rfolder option"

text \<open>
  The file system calls of \<^verbatim>\<open>_fetch_storage\<close>, over a state \<open>'fs\<close>: \<^verbatim>\<open>os.path.isdir\<close>,
  \<^verbatim>\<open>os.makedirs\<close>, \<^verbatim>\<open>aiofiles.open(p, "wb")\<close>, and writing bytes to the file opened at a
  path. The two calls that can raise return the state they leave and the exception.
\<close>

record 'fs os_ops =
  os_path_isdir :: "'fs \<Rightarrow> string \<Rightarrow> bool"
  os_makedirs :: "'fs \<Rightarrow> string \<Rightarrow> 'fs \<times> error option"
  aiofiles_open_wb :: "'fs \<Rightarrow> string \<Rightarrow> 'fs \<times> error option"
  write_bytes :: "'fs \<Rightarrow> string \<Rightarrow> string \<Rightarrow> 'fs"

text \<open>\<^verbatim>\<open>os.path.join\<close> of two components (posixpath).\<close>

definition os_path_join :: "string \<Rightarrow> string \<Rightarrow> string" where
  "os_path_join a b =
     (if startswith b ''/'' then b
      else if a = [] \<or> endswith a ''/'' then a @ b
      else a @ ''/'' @ b)"

subsection \<open>Generators as outcomes\<close>

text \<open>
  A run of an asynchronous generator (or of a coroutine that puts lines on the queue):
  the lines it has produced, the file system it leaves, and the exception that ended
  it, if any.
\<close>

type_synonym 'fs outcome = "string list \<times> 'fs \<times> error option"

definition finish :: "'fs \<Rightarrow> 'fs outcome" where
  "finish s = ([], s, None)"

definition raise :: "'fs \<Rightarrow> error \<Rightarrow> 'fs outcome" where
  "raise s e = ([], s, Some e)"

definition emit :: "string \<Rightarrow> 'fs \<Rightarrow> 'fs outcome" where
  "emit l s = ([l], s, None)"

definition os_call :: "'fs \<times> error option \<Rightarrow> 'fs outcome" where
  "os_call r = ([], fst r, snd r)"

text \<open>Sequencing: what follows runs only when the first part did not raise.\<close>

fun and_then :: "'fs outcome \<Rightarrow> ('fs \<Rightarrow> 'fs outcome) \<Rightarrow> 'fs outcome" where
  "and_then (ls, s, Some e) k = (ls, s, Some e)"
| "and_then (ls, s, None) k = (case k s of (ls', s', e') \<Rightarrow> (ls @ ls', s', e'))"

subsection \<open>The recursive walk: \<^verbatim>\<open>RDM._fetch_storage\<close>\<close>

definition has_sep :: "string \<Rightarrow> bool" where
  "has_sep nm = (CHR ''/'' \<in> set nm \<or> CHR 0x5C \<in> set nm)"

definition fetch_line :: "string \<Rightarrow> string \<Rightarrow> string \<Rightarrow> string" where
  "fetch_line remote_path local_path output_dir =
     ''Fetch: '' @ remote_path @ '' ('' @ local_path @ '' to '' @ output_dir @ '')'' @ [CHR 0x0A]"

text \<open>Lines 138-140 and 149, the three local paths of a file and the directory of a folder.\<close>

definition local_path :: "string option \<Rightarrow> string \<Rightarrow> string" where
  "local_path local_dir nm = (case local_dir of Some d \<Rightarrow> os_path_join d nm | None \<Rightarrow> nm)"

definition local_dir_path :: "string \<Rightarrow> string option \<Rightarrow> string" where
  "local_dir_path output_dir local_dir =
     (case local_dir of Some d \<Rightarrow> os_path_join output_dir d | None \<Rightarrow> output_dir)"

definition local_file_path :: "string \<Rightarrow> string option \<Rightarrow> string \<Rightarrow> string" where
  "local_file_path output_dir local_dir nm = os_path_join output_dir (local_path local_dir nm)"

text \<open>Lines 136-145, the body of the loop over the files.\<close>

definition fetch_file ::
  "'fs os_ops \<Rightarrow> string \<Rightarrow> string option \<Rightarrow> rfile \<Rightarrow> 'fs \<Rightarrow> 'fs outcome" where
  "fetch_file ops output_dir local_dir file s =
     (if has_sep (file_name file)
      then raise s (ValueError (''File.name cannot include path separators: '' @ file_name file))
      else
        and_then (if \<not> os_path_isdir ops s (local_dir_path output_dir local_dir)
                  then os_call (os_makedirs ops s (local_dir_path output_dir local_dir))
                  else finish s) (\<lambda>s.
        and_then (os_call (aiofiles_open_wb ops s
                    (local_file_path output_dir local_dir (file_name file)))) (\<lambda>s.
        and_then ([], write_bytes ops s (local_file_path output_dir local_dir (file_name file))
                        (fst (file_write_to file)),
                      snd (file_write_to file)) (\<lambda>s.
        emit (fetch_line (file_path file) (local_path local_dir (file_name file)) output_dir) s))))"

fun fetch_files ::
  "'fs os_ops \<Rightarrow> string \<Rightarrow> string option \<Rightarrow> rfile list \<Rightarrow> 'fs \<Rightarrow> 'fs outcome" where
  "fetch_files ops output_dir local_dir [] s = finish s"
| "fetch_files ops output_dir local_dir (file # rest) s =
     and_then (fetch_file ops output_dir local_dir file s) (\<lambda>s.
     fetch_files ops output_dir local_dir rest s)"

text \<open>The exception that ends a listing early, once its items are through.\<close>

definition listing_end :: "error option \<Rightarrow> 'fs \<Rightarrow> 'fs outcome" where
  "listing_end err s = ([], s, err)"

fun p_fetch_storage ::
      "'fs os_ops \<Rightarrow> string \<Rightarrow> string option \<Rightarrow> rfolder \<Rightarrow> 'fs \<Rightarrow> 'fs outcome"
  and fetch_folders ::
      "'fs os_ops \<Rightarrow> string \<Rightarrow> string option \<Rightarrow> rfolder list \<Rightarrow> 'fs \<Rightarrow> 'fs outcome" where
  "p_fetch_storage ops output_dir local_dir (Folder nm fs ferr ds derr) s =
     and_then (fetch_files ops output_dir local_dir fs s) (\<lambda>s.
     and_then (listing_end ferr s) (\<lambda>s.
     and_then (fetch_folders ops output_dir local_dir ds s) (\<lambda>s.
     listing_end derr s)))"
| "fetch_folders ops output_dir local_dir [] s = finish s"
| "fetch_folders ops output_dir local_dir (folder # rest) s =
     (if has_sep (folder_name folder)
      then raise s (ValueError (''Folder.name cannot include path separators: ''
                                 @ folder_name folder))
      else
        and_then (p_fetch_storage ops output_dir
                    (Some (local_path local_dir (folder_name folder))) folder s) (\<lambda>s.
        fetch_folders ops output_dir local_dir rest s))"

subsection \<open>\<^verbatim>\<open>RDM._fetch\<close>\<close>

definition header_line :: "string \<Rightarrow> string \<Rightarrow> string \<Rightarrow> string" where
  "header_line sub pid api_url =
     ''Fetching RDM directory '' @ sub @ '' on '' @ pid @ '' at '' @ api_url @ ''.'' @ [CHR 0x0A]"

text \<open>\<^verbatim>\<open>s.rstrip("/")\<close>.\<close>

definition rstrip_slash :: "string \<Rightarrow> string" where
  "rstrip_slash s = rev (dropWhile (\<lambda>c. c = CHR ''/'') (rev s))"

text \<open>Line 104. \<^verbatim>\<open>host["api"].endswith\<close> exists on a string only.\<close>

definition api_url_of :: "json \<Rightarrow> error + string" where
  "api_url_of host =
     (case subscript host ''api'' of
        Inl e \<Rightarrow> Inl e
      | Inr api \<Rightarrow>
          (case api of
             JStr a \<Rightarrow> Inr (if endswith a ''/'' then butlast a else a)
           | _ \<Rightarrow> Inl AttributeError))"

text \<open>Line 110. \<^verbatim>\<open>os.getenv\<close> gives \<^verbatim>\<open>None\<close> for an unset variable.\<close>

definition token_of :: "environ \<Rightarrow> json \<Rightarrow> error + json" where
  "token_of env host =
     (case py_in ''token'' host of
        Inl e \<Rightarrow> Inl e
      | Inr has_token \<Rightarrow>
          if has_token then subscript host ''token''
          else Inr (case OSF_TOKEN env of Some t \<Rightarrow> JStr t | None \<Rightarrow> JNull))"

text \<open>Lines 116-121, from the non-empty sub-path to the storage or folder to walk.\<close>

definition resolve :: "remote \<Rightarrow> project \<Rightarrow> string \<Rightarrow> error + rfolder" where
  "resolve rem proj sub =
     (let p = rstrip_slash sub in
      case storage proj (if CHR ''/'' \<in> set p then take (index p CHR ''/'') p else p) of
        Inl e \<Rightarrow> Inl e
      | Inr st \<Rightarrow>
          if CHR ''/'' \<in> set p
          then (case find_by_path rem st (drop (index p CHR ''/'' + 1) p) of
                  Inl e \<Rightarrow> Inl e
                | Inr None \<Rightarrow> Inl (RuntimeError (''Could not find path '' @ p))
                | Inr (Some st') \<Rightarrow> Inr st')
          else Inr st)"

text \<open>Lines 125-127, the loop over the storages of the project.\<close>

fun fetch_storages :: "'fs os_ops \<Rightarrow> string \<Rightarrow> rfolder list \<Rightarrow> 'fs \<Rightarrow> 'fs outcome" where
  "fetch_storages ops output_dir [] s = finish s"
| "fetch_storages ops output_dir (st # rest) s =
     and_then (p_fetch_storage ops output_dir (Some (folder_name st)) st s) (\<lambda>s.
     fetch_storages ops output_dir rest s)"

text \<open>Lines 109-113: the token, the client, the project.\<close>

definition connect :: "remote \<Rightarrow> environ \<Rightarrow> fetch_spec \<Rightarrow> string \<Rightarrow> error + project" where
  "connect rem env spec api_url =
     (case token_of env (spec_host spec) of
        Inl e \<Rightarrow> Inl e
      | Inr token \<Rightarrow>
          (case OSF rem token api_url of
             Inl e \<Rightarrow> Inl e
           | Inr osf \<Rightarrow> osf (spec_project_id spec)))"

definition p_fetch ::
  "'fs os_ops \<Rightarrow> remote \<Rightarrow> environ \<Rightarrow> fetch_spec \<Rightarrow> string \<Rightarrow> 'fs \<Rightarrow> 'fs outcome" where
  "p_fetch ops rem env spec output_dir s =
     (case api_url_of (spec_host spec) of
        Inl e \<Rightarrow> raise s e
      | Inr api_url \<Rightarrow>
          and_then (emit (header_line (spec_path spec) (spec_project_id spec) api_url) s) (\<lambda>s.
            case connect rem env spec api_url of
              Inl e \<Rightarrow> raise s e
            | Inr proj \<Rightarrow>
                if length (spec_path spec) \<noteq> 0
                then (case resolve rem proj (spec_path spec) of
                        Inl e \<Rightarrow> raise s e
                      | Inr st \<Rightarrow> p_fetch_storage ops output_dir None st s)
                else and_then (fetch_storages ops output_dir (storages proj) s) (\<lambda>s.
                     listing_end (storages_error proj) s)))"

subsection \<open>The queue: \<^verbatim>\<open>RDM._fetch_with_error\<close> and \<^verbatim>\<open>RDM.fetch\<close>\<close>

text \<open>What the queue carries: a line, an exception, or the end marker \<^verbatim>\<open>None\<close>.\<close>

datatype item = Line string | Exc error | EndMark

text \<open>
  The producer: everything it puts on the queue, in order, and the file system it
  leaves. The queue is unbounded, so no \<^verbatim>\<open>put\<close> waits or fails.
\<close>

definition p_fetch_with_error ::
  "'fs os_ops \<Rightarrow> remote \<Rightarrow> environ \<Rightarrow> fetch_spec \<Rightarrow> string \<Rightarrow> 'fs \<Rightarrow> item list \<times> 'fs" where
  "p_fetch_with_error ops rem env spec output_dir s =
     (case p_fetch ops rem env spec output_dir s of
        (ls, s', err) \<Rightarrow>
          (map Line ls @ (case err of Some e \<Rightarrow> [Exc e] | None \<Rightarrow> []) @ [EndMark], s'))"

text \<open>
  The consumer loop of \<^verbatim>\<open>fetch\<close> (lines 82-88) over the items the producer puts: the
  lines it yields and the exception it raises, if any. On a queue that runs empty with
  no end marker \<^verbatim>\<open>queue.get()\<close> never returns: the result is \<open>None\<close>.
\<close>

fun consume :: "item list \<Rightarrow> (string list \<times> error option) option" where
  "consume [] = None"
| "consume (Exc e # rest) = Some ([], Some e)"
| "consume (EndMark # rest) = Some ([], None)"
| "consume (Line l # rest) =
     (case consume rest of None \<Rightarrow> None | Some (ls, err) \<Rightarrow> Some (l # ls, err))"

text \<open>
  \<^verbatim>\<open>fetch\<close>, iterated to its end by the caller: the lines yielded, the exception raised
  and the file system left behind.
\<close>

definition fetch ::
  "'fs os_ops \<Rightarrow> remote \<Rightarrow> environ \<Rightarrow> fetch_spec \<Rightarrow> string \<Rightarrow> 'fs
     \<Rightarrow> (string list \<times> error option \<times> 'fs) option" where
  "fetch ops rem env spec output_dir s =
     (case p_fetch_with_error ops rem env spec output_dir s of
        (q, s') \<Rightarrow>
          (case consume q of None \<Rightarrow> None | Some (ls, err) \<Rightarrow> Some (ls, err, s')))"

subsection \<open>A file system\<close>

text \<open>
  A model of the POSIX file system behind the four calls: the set of directories and
  the contents of the regular files, both keyed by the path as a string (no
  normalisation, no links, no permissions).
\<close>

record posix_fs =
  fs_dirs :: "string set"
  fs_files :: "string \<rightharpoonup> string"

text \<open>The proper prefixes of a path that end before a slash, shortest first.\<close>

definition ancestors :: "string \<Rightarrow> string list" where
  "ancestors p = map (\<lambda>i. take i p) (filter (\<lambda>i. p ! i = CHR ''/'') [1..<length p])"

text \<open>
  \<^verbatim>\<open>os.makedirs\<close> creates the missing ancestors from the top, then the directory
  itself, and stops at the first path that is a regular file; the directory itself
  must not exist yet, and the empty path names nothing.
\<close>

fun mkdir_all :: "posix_fs \<Rightarrow> string list \<Rightarrow> posix_fs \<times> error option" where
  "mkdir_all s [] = (s, None)"
| "mkdir_all s (q # qs) =
     (if q \<in> dom (fs_files s) then (s, Some (OSError ''NotADirectoryError''))
      else mkdir_all (s\<lparr>fs_dirs := insert q (fs_dirs s)\<rparr>) qs)"

definition posix_makedirs :: "posix_fs \<Rightarrow> string \<Rightarrow> posix_fs \<times> error option" where
  "posix_makedirs s p =
     (if p = [] then (s, Some (OSError ''FileNotFoundError''))
      else
        (case mkdir_all s (ancestors p) of
           (s', Some e) \<Rightarrow> (s', Some e)
         | (s', None) \<Rightarrow>
             if p \<in> dom (fs_files s') \<or> p \<in> fs_dirs s'
             then (s', Some (OSError ''FileExistsError''))
             else (s'\<lparr>fs_dirs := insert p (fs_dirs s')\<rparr>, None)))"

text \<open>
  Opening for writing creates the file or empties it; a directory cannot be opened,
  and neither can the empty path or a path that ends in a slash.
\<close>

definition posix_open_wb :: "posix_fs \<Rightarrow> string \<Rightarrow> posix_fs \<times> error option" where
  "posix_open_wb s p =
     (if p = [] then (s, Some (OSError ''FileNotFoundError''))
      else if p \<in> fs_dirs s \<or> last p = CHR ''/'' then (s, Some (OSError ''IsADirectoryError''))
      else (s\<lparr>fs_files := (fs_files s)(p \<mapsto> [])\<rparr>, None))"

definition posix_write :: "posix_fs \<Rightarrow> string \<Rightarrow> string \<Rightarrow> posix_fs" where
  "posix_write s p bytes =
     s\<lparr>fs_files := (fs_files s)(p \<mapsto> (case fs_files s p of Some old \<Rightarrow> old @ bytes
                                                         | None \<Rightarrow> bytes))\<rparr>"

definition posix :: "posix_fs os_ops" where
  "posix = \<lparr>os_path_isdir = (\<lambda>s p. p \<in> fs_dirs s), os_makedirs = posix_makedirs,
            aiofiles_open_wb = posix_open_wb, write_bytes = posix_write\<rparr>"

subsection \<open>The files a walk is to copy\<close>

text \<open>
  The files under a storage or folder in the order the specification gives (at each
  level the files, then each subfolder in turn), each with its remote path and its
  local relative path: the file name under the names of the folders above it, under
  the starting directory when there is one.
\<close>

fun planned :: "string option \<Rightarrow> rfolder \<Rightarrow> (string \<times> string) list"
  and planned_list :: "string option \<Rightarrow> rfolder list \<Rightarrow> (string \<times> string) list" where
  "planned local_dir (Folder nm fs ferr ds derr) =
     map (\<lambda>f. (file_path f, local_path local_dir (file_name f))) fs @ planned_list local_dir ds"
| "planned_list local_dir [] = []"
| "planned_list local_dir (d # ds) =
     planned (Some (local_path local_dir (folder_name d))) d @ planned_list local_dir ds"

subsection \<open>A sample service\<close>

text \<open>
  Concrete inputs for the worked examples: an instance with the built-in host,
  stand-ins for the two library calls of \<^verbatim>\<open>detect\<close> (the path of a URL of the built-in
  host that has no parameters, query or fragment is what follows the host name), a
  project \<^verbatim>\<open>abc\<close> with the single storage \<^verbatim>\<open>osfstorage\<close>, and an empty file system.
\<close>

definition sample_self :: rdm where
  "sample_self = \<lparr>hosts = default_hosts, project_id = None, path = None, uuid = None\<rparr>"

definition sample_host :: json where
  "sample_host = JObj [(''hostname'', JArr [JStr ''https://test.some.host.nii.ac.jp/'']),
                       (''api'', JStr ''https://api.test.some.host.nii.ac.jp/v2/'')]"

definition sample_urlparse :: "string \<Rightarrow> error + string" where
  "sample_urlparse source = Inr (drop (length ''https://test.some.host.nii.ac.jp'') source)"

definition sample_uuid1 :: "nat \<Rightarrow> string" where
  "sample_uuid1 n = ''uuid-'' @ replicate n CHR ''x''"

definition sample_env :: environ where
  "sample_env = \<lparr>RDM_HOSTS = None, RDM_HOSTS_JSON = None, OSF_TOKEN = None\<rparr>"

definition sample_storage :: rfolder where
  "sample_storage =
     Folder ''osfstorage'' [File ''a.txt'' ''/a.txt'' (''AAA'', None)] None
       [Folder ''dir'' [File ''b.txt'' ''/dir/b.txt'' (''BB'', None)] None [] None] None"

definition sample_project :: project where
  "sample_project =
     Project (\<lambda>nm. if nm = ''osfstorage'' then Inr sample_storage
                   else Inl (ExternalError ''storage not found''))
       [sample_storage] None"

text \<open>
  The sample \<open>find_by_path\<close> descends through the folders named by the segments of the
  path and finds nothing when a segment names no folder.
\<close>

fun descend :: "rfolder \<Rightarrow> string list \<Rightarrow> rfolder option" where
  "descend st [] = Some st"
| "descend st (seg # segs) =
     (case filter (\<lambda>d. folder_name d = seg) (folders st) of
        [] \<Rightarrow> None
      | d # _ \<Rightarrow> descend d segs)"

fun split_slash :: "string \<Rightarrow> string list" where
  "split_slash [] = [[]]"
| "split_slash (c # cs) =
     (if c = CHR ''/'' then [] # split_slash cs
      else (case split_slash cs of seg # segs \<Rightarrow> (c # seg) # segs | [] \<Rightarrow> [[c]]))"

definition sample_remote :: remote where
  "sample_remote =
     \<lparr>OSF = (\<lambda>token base_url.
              Inr (\<lambda>pid. if pid = ''abc'' then Inr sample_project
                         else Inl (ExternalError ''project not found''))),
      find_by_path = (\<lambda>st p. Inr (descend st (split_slash p)))\<rparr>"

definition sample_spec :: "string \<Rightarrow> string \<Rightarrow> fetch_spec" where
  "sample_spec pid sub =
     \<lparr>spec_project_id = pid, spec_path = sub, spec_host = sample_host, spec_uuid = ''v1''\<rparr>"

definition empty_fs :: posix_fs where
  "empty_fs = \<lparr>fs_dirs = {}, fs_files = Map.empty\<rparr>"

subsection \<open>Notions for the properties\<close>

text \<open>The \<^verbatim>\<open>Fetch:\<close> line of a planned file.\<close>

definition line_of :: "string \<Rightarrow> string \<times> string \<Rightarrow> string" where
  "line_of output_dir e = fetch_line (fst e) (snd e) output_dir"

text \<open>
  A run follows a plan of lines: its lines are the first lines of the plan, and all
  of them when it ends without an exception.
\<close>

definition follows_plan :: "'fs outcome \<Rightarrow> string list \<Rightarrow> bool" where
  "follows_plan r plan = (prefix (fst r) plan \<and> (snd (snd r) = None \<longrightarrow> fst r = plan))"

text \<open>The files a whole fetch is to copy: those of the resolved root or roots.\<close>

definition fetch_plan :: "remote \<Rightarrow> environ \<Rightarrow> fetch_spec \<Rightarrow> (string \<times> string) list" where
  "fetch_plan rem env spec =
     (case api_url_of (spec_host spec) of
        Inl e \<Rightarrow> []
      | Inr api_url \<Rightarrow>
          (case connect rem env spec api_url of
             Inl e \<Rightarrow> []
           | Inr proj \<Rightarrow>
               if spec_path spec \<noteq> []
               then (case resolve rem proj (spec_path spec) of
                       Inl e \<Rightarrow> []
                     | Inr st \<Rightarrow> planned None st)
               else concat (map (\<lambda>st. planned (Some (folder_name st)) st) (storages proj))))"


text \<open>No file or folder below the root has a path separator in its name.\<close>

fun valid_names :: "rfolder \<Rightarrow> bool" where
  "valid_names (Folder nm fs ferr ds derr) =
     (list_all (\<lambda>f. \<not> has_sep (file_name f)) fs
      \<and> list_all (\<lambda>d. \<not> has_sep (folder_name d) \<and> valid_names d) ds)"

section \<open>Properties\<close>

subsection \<open>Construction\<close>

lemma check_hosts_ok:
  "check_hosts hs = None \<Longrightarrow> h \<in> set hs \<Longrightarrow>
   \<exists>kvs hn api. h = JObj kvs \<and> map_of kvs ''hostname'' = Some (JArr hn)
                \<and> map_of kvs ''api'' = Some api"
proof (induction hs)
  case Nil
  then show ?case by simp
next
  case (Cons x xs)
  from Cons.prems(1)
  have hd: "\<exists>kvs hn api. x = JObj kvs \<and> map_of kvs ''hostname'' = Some (JArr hn)
                         \<and> map_of kvs ''api'' = Some api"
    and tl: "check_hosts xs = None"
    by (cases x; auto split: sum.splits if_splits option.splits elim: is_list.elims)+
  then show ?case using Cons by auto
qed

lemma check_hosts_bad:
  assumes "JObj kvs \<in> set hs"
    and "map_of kvs ''hostname'' = None
         \<or> (\<exists>v. map_of kvs ''hostname'' = Some v \<and> \<not> is_list v)
         \<or> map_of kvs ''api'' = None"
  shows "check_hosts hs \<noteq> None"
proof
  assume "check_hosts hs = None"
  from check_hosts_ok[OF this assms(1)] show False using assms(2) by auto
qed

text \<open>
  C7, as the code has it. When the loaded value is a list, construction raises as soon
  as one of its host objects has no \<^verbatim>\<open>hostname\<close> key, a \<^verbatim>\<open>hostname\<close> that is no list, or
  no \<^verbatim>\<open>api\<close> key; and every element of an accepted list is an object with a list under
  \<^verbatim>\<open>hostname\<close> and some value under \<^verbatim>\<open>api\<close>. Nothing is said of the list or the value
  being non-empty.
\<close>

theorem init_validates_hosts:
  "(load_hosts env = Inr (JArr hs) \<and>
      (\<exists>kvs. JObj kvs \<in> set hs \<and>
         (map_of kvs ''hostname'' = None
          \<or> (\<exists>v. map_of kvs ''hostname'' = Some v \<and> \<not> is_list v)
          \<or> map_of kvs ''api'' = None))
      \<longrightarrow> (\<exists>e. init env = Inl e))
   \<and> (init env = Inr self \<and> hosts self = JArr hs
      \<longrightarrow> (\<forall>h \<in> set hs. \<exists>kvs hn api. h = JObj kvs
                \<and> map_of kvs ''hostname'' = Some (JArr hn) \<and> map_of kvs ''api'' = Some api))"
proof (intro conjI impI)
  assume a: "load_hosts env = Inr (JArr hs) \<and>
      (\<exists>kvs. JObj kvs \<in> set hs \<and>
         (map_of kvs ''hostname'' = None
          \<or> (\<exists>v. map_of kvs ''hostname'' = Some v \<and> \<not> is_list v)
          \<or> map_of kvs ''api'' = None))"
  then have "check_hosts hs \<noteq> None" using check_hosts_bad by blast
  then show "\<exists>e. init env = Inl e" using a by (auto simp: init_def)
next
  assume a: "init env = Inr self \<and> hosts self = JArr hs"
  then have "check_hosts hs = None"
    by (auto simp: init_def split: sum.splits option.splits json.splits)
  then show "\<forall>h \<in> set hs. \<exists>kvs hn api. h = JObj kvs
                \<and> map_of kvs ''hostname'' = Some (JArr hn) \<and> map_of kvs ''api'' = Some api"
    using check_hosts_ok by blast
qed

text \<open>
  The theorem at two inputs: an inline list whose one host has no \<^verbatim>\<open>api\<close> is refused,
  and the built-in list is accepted with its host shaped as stated.
\<close>

theorem init_validates_hosts_witness:
  "(\<exists>e. init (sample_env\<lparr>RDM_HOSTS_JSON :=
            Some (Inr (JArr [JObj [(''hostname'', JArr [JStr ''https://h/''])]]))\<rparr>) = Inl e)
   \<and> init sample_env = Inr sample_self
   \<and> (\<exists>kvs hn api. sample_host = JObj kvs \<and> map_of kvs ''hostname'' = Some (JArr hn)
                    \<and> map_of kvs ''api'' = Some api)"
proof -
  let ?bad = "JArr [JObj [(''hostname'', JArr [JStr ''https://h/''])]]"
  let ?env = "sample_env\<lparr>RDM_HOSTS_JSON := Some (Inr ?bad)\<rparr>"
  have l: "load_hosts ?env = Inr ?bad"
    by (simp add: load_hosts_def sample_env_def)
  have i: "init sample_env = Inr sample_self"
    by (simp add: init_def load_hosts_def sample_env_def sample_self_def default_hosts_def)
  have h: "hosts sample_self = JArr [sample_host]"
    by (simp add: sample_self_def default_hosts_def sample_host_def)
  from init_validates_hosts[of ?env "[JObj [(''hostname'', JArr [JStr ''https://h/''])]]"
         sample_self]
  have a: "\<exists>e. init ?env = Inl e" using l by simp
  from init_validates_hosts[of sample_env "[sample_host]" sample_self]
  have b: "\<exists>kvs hn api. sample_host = JObj kvs \<and> map_of kvs ''hostname'' = Some (JArr hn)
                    \<and> map_of kvs ''api'' = Some api"
    using i h by simp
  show ?thesis using a i b by blast
qed

text \<open>
  C7 as stated fails: a host with an empty \<^verbatim>\<open>hostname\<close> list and an empty \<^verbatim>\<open>api\<close>
  string is accepted.
\<close>

theorem init_accepts_empty_fields:
  "init \<lparr>RDM_HOSTS = None,
         RDM_HOSTS_JSON = Some (Inr (JArr [JObj [(''hostname'', JArr []), (''api'', JStr [])]])),
         OSF_TOKEN = None\<rparr>
   = Inr \<lparr>hosts = JArr [JObj [(''hostname'', JArr []), (''api'', JStr [])]],
          project_id = None, path = None, uuid = None\<rparr>"
  by (simp add: init_def load_hosts_def)

subsection \<open>Locator detection and content identity\<close>

lemma detect_SomeD:
  assumes "detect urlparse uuid1 self n source ref = (Inr (Some spec), self', n')"
  shows "\<exists>host upath.
           urlparse source = Inr upath \<and>
           spec = \<lparr>spec_project_id = fst (split_path upath), spec_path = snd (split_path upath),
                    spec_host = host,
                    spec_uuid = (if p_check_ref_defined ref then the ref else uuid1 n)\<rparr> \<and>
           self' = self\<lparr>project_id := Some (fst (split_path upath)),
                        path := Some (snd (split_path upath)),
                        uuid := Some (if p_check_ref_defined ref then the ref else uuid1 n)\<rparr> \<and>
           n' = (if p_check_ref_defined ref then n else Suc n)"
  using assms
  by (auto simp: detect_def split: sum.splits option.splits prod.splits if_splits)

lemma index_append_sep: "c \<notin> set a \<Longrightarrow> index (a @ c # b) c = length a"
  by (induction a) (auto simp: index_def)

lemma split_path_no_slash:
  "CHR ''/'' \<notin> set (if startswith upath ''/'' then drop 1 upath else upath)
   \<Longrightarrow> split_path upath = ((if startswith upath ''/'' then drop 1 upath else upath), [])"
  by (simp add: split_path_def Let_def)

lemma split_path_slash:
  assumes "(if startswith upath ''/'' then drop 1 upath else upath) = pid @ ''/'' @ rest"
    and "CHR ''/'' \<notin> set pid"
  shows "split_path upath =
           (pid, if startswith rest ''files/'' then drop (length ''files/'') rest else rest)"
  using assms by (simp add: split_path_def Let_def index_append_sep)

lemma host_matches_wf:
  "map_of kvs ''hostname'' = Some (JArr (map JStr ss))
   \<Longrightarrow> host_matches source (JObj kvs) = Inr (\<exists>s \<in> set ss. startswith source s)"
  by (simp add: host_matches_def list_all_iff list_ex_iff)

lemma map_JStr_eq: "map JStr a = map JStr b \<Longrightarrow> a = b"
  by (simp add: inj_def)

lemma find_host_wf:
  assumes "\<forall>h \<in> set hs. \<exists>kvs ss. h = JObj kvs
              \<and> map_of kvs ''hostname'' = Some (JArr (map JStr ss))"
    and "\<exists>h \<in> set hs. \<exists>kvs ss. h = JObj kvs
              \<and> map_of kvs ''hostname'' = Some (JArr (map JStr ss))
              \<and> (\<exists>s \<in> set ss. startswith source s)"
  shows "\<exists>host. find_host source hs = Inr (Some host)"
  using assms
proof (induction hs)
  case Nil
  then show ?case by simp
next
  case (Cons h hs)
  from Cons.prems(1) obtain kvs ss
    where h: "h = JObj kvs" "map_of kvs ''hostname'' = Some (JArr (map JStr ss))"
    by auto
  show ?case
  proof (cases "\<exists>s \<in> set ss. startswith source s")
    case True
    then show ?thesis using h by (simp add: host_matches_wf)
  next
    case False
    then have "\<exists>h \<in> set hs. \<exists>kvs ss. h = JObj kvs
                 \<and> map_of kvs ''hostname'' = Some (JArr (map JStr ss))
                 \<and> (\<exists>s \<in> set ss. startswith source s)"
      using Cons.prems(2) h by (auto dest: map_JStr_eq)
    then have "\<exists>host. find_host source hs = Inr (Some host)"
      using Cons.IH Cons.prems(1) by simp
    then show ?thesis using h False by (simp add: host_matches_wf)
  qed
qed

lemma sample_uuid1_inj: "inj sample_uuid1"
  by (auto simp: inj_def sample_uuid1_def dest: arg_cong[where f = length])

lemmas sample_detect_defs =
  detect_def sample_urlparse_def sample_uuid1_def sample_self_def default_hosts_def
  host_matches_def split_path_def startswith_def index_def p_check_ref_defined_def
  sample_spec_def sample_host_def

lemma sample_detect_v1:
  "detect sample_urlparse sample_uuid1 sample_self 0
     ''https://test.some.host.nii.ac.jp/abc'' (Some ''v1'')
   = (Inr (Some (sample_spec ''abc'' [])),
      sample_self\<lparr>project_id := Some ''abc'', path := Some [], uuid := Some ''v1''\<rparr>, 0)"
  by (simp add: sample_detect_defs)

lemma sample_detect_refless:
  "detect sample_urlparse sample_uuid1 sample_self 0
     ''https://test.some.host.nii.ac.jp/abc/files/osfstorage/x'' None
   = (Inr (Some \<lparr>spec_project_id = ''abc'', spec_path = ''osfstorage/x'',
                  spec_host = sample_host, spec_uuid = ''uuid-''\<rparr>),
      sample_self\<lparr>project_id := Some ''abc'', path := Some ''osfstorage/x'',
                  uuid := Some ''uuid-''\<rparr>, 1)"
  by (simp add: sample_detect_defs)

lemma sample_detect_head:
  "detect sample_urlparse sample_uuid1 sample_self (Suc 0)
     ''https://test.some.host.nii.ac.jp/abc/files/osfstorage/x'' (Some ''HEAD'')
   = (Inr (Some \<lparr>spec_project_id = ''abc'', spec_path = ''osfstorage/x'',
                  spec_host = sample_host, spec_uuid = ''uuid-x''\<rparr>),
      sample_self\<lparr>project_id := Some ''abc'', path := Some ''osfstorage/x'',
                  uuid := Some ''uuid-x''\<rparr>, Suc (Suc 0))"
  by (simp add: sample_detect_defs)

text \<open>
  C3. The instance holds a list of hosts whose \<^verbatim>\<open>hostname\<close> lists are lists of strings,
  the source starts with one of these prefixes, and \<open>p\<close> is the path of the parsed URL
  after one leading slash, if any. Then \<^verbatim>\<open>detect\<close> returns a spec in which: when \<open>p\<close>
  has no slash, the project id is \<open>p\<close> and the sub-path is empty; when \<open>p\<close> is
  \<open>pid/rest\<close> with no slash in \<open>pid\<close>, the project id is \<open>pid\<close> and the sub-path is
  \<open>rest\<close> without one leading \<^verbatim>\<open>files/\<close>; so \<open>pid/files/rest\<close> gives exactly \<open>rest\<close>.
\<close>

theorem detect_parses_path:
  assumes hs: "hosts self = JArr hs"
    and wf: "\<forall>h \<in> set hs. \<exists>kvs ss. h = JObj kvs
               \<and> map_of kvs ''hostname'' = Some (JArr (map JStr ss))"
    and m: "\<exists>h \<in> set hs. \<exists>kvs ss. h = JObj kvs
               \<and> map_of kvs ''hostname'' = Some (JArr (map JStr ss))
               \<and> (\<exists>s \<in> set ss. startswith source s)"
    and u: "urlparse source = Inr upath"
    and p: "p = (if startswith upath ''/'' then drop 1 upath else upath)"
  shows "\<exists>spec self' n'.
           detect urlparse gen self n source ref = (Inr (Some spec), self', n') \<and>
           (CHR ''/'' \<notin> set p \<longrightarrow> spec_project_id spec = p \<and> spec_path spec = []) \<and>
           (\<forall>pid rest. p = pid @ ''/'' @ rest \<and> CHR ''/'' \<notin> set pid \<longrightarrow>
              spec_project_id spec = pid \<and>
              spec_path spec = (if startswith rest ''files/''
                                then drop (length ''files/'') rest else rest)) \<and>
           (\<forall>pid rest. p = pid @ ''/files/'' @ rest \<and> CHR ''/'' \<notin> set pid \<longrightarrow>
              spec_project_id spec = pid \<and> spec_path spec = rest)"
proof -
  from find_host_wf[OF wf m] obtain host where fh: "find_host source hs = Inr (Some host)"
    by blast
  have "\<exists>spec self' n'.
          detect urlparse gen self n source ref = (Inr (Some spec), self', n')
          \<and> spec_project_id spec = fst (split_path upath)
          \<and> spec_path spec = snd (split_path upath)"
    using hs fh u by (simp add: detect_def case_prod_beta)
  then obtain spec self' n'
    where d: "detect urlparse gen self n source ref = (Inr (Some spec), self', n')"
      and pid: "spec_project_id spec = fst (split_path upath)"
      and sub: "spec_path spec = snd (split_path upath)"
    by blast
  have a: "CHR ''/'' \<notin> set p \<longrightarrow> spec_project_id spec = p \<and> spec_path spec = []"
    using split_path_no_slash[of upath] by (auto simp: p pid sub)
  have b: "spec_project_id spec = pid' \<and>
           spec_path spec = (if startswith rest ''files/''
                             then drop (length ''files/'') rest else rest)"
    if "p = pid' @ ''/'' @ rest" "CHR ''/'' \<notin> set pid'" for pid' rest
    using split_path_slash[of upath pid' rest] that by (simp add: p pid sub)
  have c: "spec_project_id spec = pid' \<and> spec_path spec = rest"
    if "p = pid' @ ''/files/'' @ rest" "CHR ''/'' \<notin> set pid'" for pid' rest
    using b[of pid' "''files/'' @ rest"] that by (simp add: startswith_def)
  show ?thesis using d a b c by blast
qed

text \<open>
  The theorem at the built-in host and the locator
  \<^verbatim>\<open>https://test.some.host.nii.ac.jp/abc/files/osfstorage/x\<close>.
\<close>

theorem detect_parses_path_witness:
  "\<exists>spec self' n'.
     detect sample_urlparse sample_uuid1 sample_self 0
       ''https://test.some.host.nii.ac.jp/abc/files/osfstorage/x'' None
       = (Inr (Some spec), self', n')
     \<and> spec_project_id spec = ''abc'' \<and> spec_path spec = ''osfstorage/x''"
proof -
  let ?src = "''https://test.some.host.nii.ac.jp/abc/files/osfstorage/x''"
  have hs: "hosts sample_self = JArr [sample_host]"
    by (simp add: sample_self_def default_hosts_def sample_host_def)
  have k: "\<exists>kvs ss. sample_host = JObj kvs
              \<and> map_of kvs ''hostname'' = Some (JArr (map JStr ss))
              \<and> (\<exists>s \<in> set ss. startswith ?src s)"
    by (rule exI[of _ "[(''hostname'', JArr [JStr ''https://test.some.host.nii.ac.jp/'']),
                        (''api'', JStr ''https://api.test.some.host.nii.ac.jp/v2/'')]"],
        rule exI[of _ "[''https://test.some.host.nii.ac.jp/'']"])
       (simp add: sample_host_def startswith_def)
  have wf: "\<forall>h \<in> set [sample_host]. \<exists>kvs ss. h = JObj kvs
              \<and> map_of kvs ''hostname'' = Some (JArr (map JStr ss))"
    using k by auto
  have m: "\<exists>h \<in> set [sample_host]. \<exists>kvs ss. h = JObj kvs
              \<and> map_of kvs ''hostname'' = Some (JArr (map JStr ss))
              \<and> (\<exists>s \<in> set ss. startswith ?src s)"
    using k by simp
  have u: "sample_urlparse ?src = Inr ''/abc/files/osfstorage/x''"
    by (simp add: sample_urlparse_def)
  have p: "''abc/files/osfstorage/x''
           = (if startswith ''/abc/files/osfstorage/x'' ''/''
              then drop 1 ''/abc/files/osfstorage/x'' else ''/abc/files/osfstorage/x'')"
    by (simp add: startswith_def)
  from detect_parses_path[where urlparse = sample_urlparse and gen = sample_uuid1
                            and n = 0 and ref = None, OF hs wf m u p]
  obtain spec self' n'
    where d: "detect sample_urlparse sample_uuid1 sample_self 0 ?src None
                = (Inr (Some spec), self', n')"
      and c: "\<forall>pid rest. ''abc/files/osfstorage/x'' = pid @ ''/files/'' @ rest
                  \<and> CHR ''/'' \<notin> set pid
                \<longrightarrow> spec_project_id spec = pid \<and> spec_path spec = rest"
    by blast
  from c[rule_format, of "''abc''" "''osfstorage/x''"]
  have "spec_project_id spec = ''abc'' \<and> spec_path spec = ''osfstorage/x''" by simp
  then show ?thesis using d by blast
qed



text \<open>
  C8. After a matching \<^verbatim>\<open>detect\<close>, \<^verbatim>\<open>content_id\<close> is the project id, a hyphen and the
  session id: \<^verbatim>\<open>abc-v1\<close> for the project \<^verbatim>\<open>abc\<close> and the ref \<^verbatim>\<open>v1\<close>, whatever else the
  call was given. The identifiers of \<^verbatim>\<open>uuid1\<close> being pairwise distinct, a later
  \<^verbatim>\<open>detect\<close> of the same project without a stable ref gives another content id.
\<close>

theorem content_id_of_detect:
  assumes "detect urlparse uuid1 self n source ref = (Inr (Some spec), self', n')"
  shows "content_id self' = Inr (spec_project_id spec @ ''-'' @ spec_uuid spec)
       \<and> (spec_project_id spec = ''abc'' \<and> ref = Some ''v1''
            \<longrightarrow> content_id self' = Inr ''abc-v1'')
       \<and> (\<forall>self2 m source2 ref2 spec2 self2' m'.
             detect urlparse uuid1 self2 m source2 ref2 = (Inr (Some spec2), self2', m')
             \<and> inj uuid1 \<and> \<not> p_check_ref_defined ref \<and> \<not> p_check_ref_defined ref2
             \<and> n' \<le> m \<and> spec_project_id spec2 = spec_project_id spec
             \<longrightarrow> content_id self2' \<noteq> content_id self')"
proof -
  from detect_SomeD[OF assms] obtain host upath where
    sp: "spec = \<lparr>spec_project_id = fst (split_path upath), spec_path = snd (split_path upath),
                 spec_host = host,
                 spec_uuid = (if p_check_ref_defined ref then the ref else uuid1 n)\<rparr>"
    and se: "self' = self\<lparr>project_id := Some (fst (split_path upath)),
                          path := Some (snd (split_path upath)),
                          uuid := Some (if p_check_ref_defined ref then the ref else uuid1 n)\<rparr>"
    and n': "n' = (if p_check_ref_defined ref then n else Suc n)"
    by blast
  have a: "content_id self' = Inr (spec_project_id spec @ ''-'' @ spec_uuid spec)"
    by (simp add: sp se content_id_def)
  have b: "spec_project_id spec = ''abc'' \<and> ref = Some ''v1''
             \<longrightarrow> content_id self' = Inr ''abc-v1''"
    using a by (auto simp: sp p_check_ref_defined_def)
  have c: "content_id self2' \<noteq> content_id self'"
    if d2: "detect urlparse uuid1 self2 m source2 ref2 = (Inr (Some spec2), self2', m')"
      and inj: "inj uuid1"
      and r1: "\<not> p_check_ref_defined ref" and r2: "\<not> p_check_ref_defined ref2"
      and le: "n' \<le> m" and same: "spec_project_id spec2 = spec_project_id spec"
    for self2 m source2 ref2 spec2 self2' m'
  proof -
    from detect_SomeD[OF d2] obtain host2 upath2 where
      sp2: "spec2 = \<lparr>spec_project_id = fst (split_path upath2),
                     spec_path = snd (split_path upath2), spec_host = host2,
                     spec_uuid = (if p_check_ref_defined ref2 then the ref2 else uuid1 m)\<rparr>"
      and se2: "self2' = self2\<lparr>project_id := Some (fst (split_path upath2)),
                        path := Some (snd (split_path upath2)),
                        uuid := Some (if p_check_ref_defined ref2 then the ref2 else uuid1 m)\<rparr>"
      by blast
    have "n < m" using le n' r1 by simp
    then have "uuid1 m \<noteq> uuid1 n" using inj by (auto dest: injD)
    moreover have "content_id self2' = Inr (spec_project_id spec2 @ ''-'' @ uuid1 m)"
      by (simp add: sp2 se2 content_id_def r2)
    moreover have "content_id self' = Inr (spec_project_id spec @ ''-'' @ uuid1 n)"
      by (simp add: sp se content_id_def r1)
    ultimately show ?thesis using same by simp
  qed
  show ?thesis using a b c by blast
qed

text \<open>
  The theorem at the same three calls: \<^verbatim>\<open>abc-v1\<close> for the ref \<^verbatim>\<open>v1\<close>, and two different
  content ids for the two calls without a stable ref.
\<close>

theorem content_id_of_detect_witness:
  "content_id (sample_self\<lparr>project_id := Some ''abc'', path := Some [],
                           uuid := Some ''v1''\<rparr>) = Inr ''abc-v1''
   \<and> content_id (sample_self\<lparr>project_id := Some ''abc'', path := Some ''osfstorage/x'',
                             uuid := Some ''uuid-x''\<rparr>)
       \<noteq> content_id (sample_self\<lparr>project_id := Some ''abc'', path := Some ''osfstorage/x'',
                                 uuid := Some ''uuid-''\<rparr>)"
proof -
  have a: "content_id (sample_self\<lparr>project_id := Some ''abc'', path := Some [],
                                   uuid := Some ''v1''\<rparr>) = Inr ''abc-v1''"
    using content_id_of_detect[OF sample_detect_v1, THEN conjunct2, THEN conjunct1]
    by (simp add: sample_spec_def)
  note r = content_id_of_detect[OF sample_detect_refless, THEN conjunct2, THEN conjunct2,
             rule_format, OF conjI[OF sample_detect_head]]
  have "content_id (sample_self\<lparr>project_id := Some ''abc'', path := Some ''osfstorage/x'',
                                 uuid := Some ''uuid-x''\<rparr>)
          \<noteq> content_id (sample_self\<lparr>project_id := Some ''abc'',
               path := Some ''osfstorage/x'', uuid := Some ''uuid-''\<rparr>)"
    using r by (simp add: sample_uuid1_inj p_check_ref_defined_def)
  then show ?thesis using a by blast
qed

subsection \<open>Sequencing and plans\<close>

lemma and_then_fst:
  "fst (and_then x k) = (if snd (snd x) = None then fst x @ fst (k (fst (snd x))) else fst x)"
  by (cases x; cases "snd (snd x)") (auto split: prod.splits)

lemma and_then_err:
  "snd (snd (and_then x k)) = (if snd (snd x) = None then snd (snd (k (fst (snd x)))) else snd (snd x))"
  by (cases x; cases "snd (snd x)") (auto split: prod.splits)

lemma and_then_raise [simp]: "and_then (raise s e) k = raise s e"
  by (simp add: raise_def)

lemma and_then_finish [simp]: "and_then (finish s) k = k s"
  by (simp add: finish_def split: prod.splits)

lemma and_then_emit: "and_then (emit l s) k = (case k s of (ls, s', e) \<Rightarrow> (l # ls, s', e))"
  by (simp add: emit_def)

lemma and_then_assoc:
  "and_then (and_then x f) g = and_then x (\<lambda>s. and_then (f s) g)"
proof -
  obtain a b e where x: "x = (a, b, e)" by (cases x)
  show ?thesis
  proof (cases e)
    case None
    obtain a' b' e' where f: "f b = (a', b', e')" by (cases "f b")
    show ?thesis
      by (cases e') (auto simp: x None f split: prod.splits)
  next
    case (Some e0)
    then show ?thesis by (simp add: x)
  qed
qed

lemma and_then_outcome:
  "x = (ls, s', err) \<Longrightarrow>
   and_then x (\<lambda>s. raise s e) = (ls, s', Some (case err of None \<Rightarrow> e | Some e' \<Rightarrow> e'))"
  by (cases err) (auto simp: raise_def)

lemma fetch_files_append:
  "fetch_files ops out ld (xs @ ys)
   = (\<lambda>s. and_then (fetch_files ops out ld xs s) (fetch_files ops out ld ys))"
proof (induction xs)
  case Nil
  then show ?case by simp
next
  case (Cons x xs)
  show ?case by (rule ext) (simp add: Cons.IH and_then_assoc)
qed

lemma fetch_folders_append:
  "fetch_folders ops out ld (xs @ ys)
   = (\<lambda>s. and_then (fetch_folders ops out ld xs s) (fetch_folders ops out ld ys))"
proof (induction xs)
  case Nil
  then show ?case by simp
next
  case (Cons x xs)
  show ?case by (rule ext) (simp add: Cons.IH and_then_assoc)
qed

lemma follows_and_then:
  assumes "follows_plan x p1" and "\<And>s. follows_plan (k s) p2"
  shows "follows_plan (and_then x k) (p1 @ p2)"
  using assms(1) assms(2)[of "fst (snd x)"]
  by (auto simp: follows_plan_def and_then_fst and_then_err)

lemma follows_raise [simp]: "follows_plan (raise s e) plan"
  by (simp add: follows_plan_def raise_def)

lemma follows_finish [simp]: "follows_plan (finish s) []"
  by (simp add: follows_plan_def finish_def)

lemma follows_os_call [simp]: "follows_plan (os_call r) []"
  by (simp add: follows_plan_def os_call_def)

lemma follows_listing_end [simp]: "follows_plan (listing_end e s) []"
  by (simp add: follows_plan_def listing_end_def)

lemma follows_emit [simp]: "follows_plan (emit l s) [l]"
  by (simp add: follows_plan_def emit_def)

lemma fetch_file_follows:
  "follows_plan (fetch_file ops out ld f s)
     [line_of out (file_path f, local_path ld (file_name f))]"
  by (simp add: follows_plan_def fetch_file_def and_then_fst and_then_err raise_def
        finish_def os_call_def emit_def line_of_def)

lemma fetch_files_follows:
  "follows_plan (fetch_files ops out ld fs s)
     (map (\<lambda>f. line_of out (file_path f, local_path ld (file_name f))) fs)"
proof (induction fs arbitrary: s)
  case Nil
  then show ?case by simp
next
  case (Cons f fs)
  have "follows_plan (fetch_files ops out ld (f # fs) s)
     ([line_of out (file_path f, local_path ld (file_name f))] @
      map (\<lambda>f. line_of out (file_path f, local_path ld (file_name f))) fs)"
    by (simp del: append.simps) (intro follows_and_then fetch_file_follows Cons.IH)
  then show ?case by simp
qed

lemma walk_follows:
  "follows_plan (p_fetch_storage ops out ld t s) (map (line_of out) (planned ld t))"
  and "follows_plan (fetch_folders ops out ld ds s) (map (line_of out) (planned_list ld ds))"
proof (induction ops out ld t s and ops out ld ds s rule: p_fetch_storage_fetch_folders.induct)
  case (1 ops output_dir local_dir nm fs ferr ds derr s)
  have "follows_plan (p_fetch_storage ops output_dir local_dir (Folder nm fs ferr ds derr) s)
          (map (\<lambda>f. line_of output_dir (file_path f, local_path local_dir (file_name f))) fs
           @ [] @ map (line_of output_dir) (planned_list local_dir ds) @ [])"
    by (simp del: append.simps append_Nil2)
       (intro follows_and_then fetch_files_follows follows_listing_end "1.IH")
  then show ?case by (simp add: comp_def)
next
  case (2 ops output_dir local_dir s)
  then show ?case by simp
next
  case (3 ops output_dir local_dir folder rest s)
  show ?case
  proof (cases "has_sep (folder_name folder)")
    case True
    then show ?thesis by simp
  next
    case False
    then show ?thesis
      by (simp del: append.simps) (intro follows_and_then "3.IH")
  qed
qed

subsection \<open>The progress stream\<close>

lemma fetch_storages_follows:
  "follows_plan (fetch_storages ops out sts s)
     (map (line_of out) (concat (map (\<lambda>st. planned (Some (folder_name st)) st) sts)))"
proof (induction sts arbitrary: s)
  case Nil
  then show ?case by simp
next
  case (Cons st sts)
  show ?case
    by (simp del: append.simps) (intro follows_and_then walk_follows Cons.IH)
qed

lemma follows_cons:
  assumes "\<And>s. follows_plan (k s) plan"
  shows "follows_plan (and_then (emit l s) k) (l # plan)"
  using follows_and_then[of "emit l s" "[l]" k plan] assms by simp

lemma p_fetch_follows:
  assumes "api_url_of (spec_host spec) = Inr api_url"
  shows "follows_plan (p_fetch ops rem env spec out s)
           (header_line (spec_path spec) (spec_project_id spec) api_url
            # map (line_of out) (fetch_plan rem env spec))"
proof -
  have k: "follows_plan
            (case connect rem env spec api_url of
              Inl e \<Rightarrow> raise s1 e
            | Inr proj \<Rightarrow>
                if length (spec_path spec) \<noteq> 0
                then (case resolve rem proj (spec_path spec) of
                        Inl e \<Rightarrow> raise s1 e
                      | Inr st \<Rightarrow> p_fetch_storage ops out None st s1)
                else and_then (fetch_storages ops out (storages proj) s1)
                       (listing_end (storages_error proj)))
            (map (line_of out) (fetch_plan rem env spec))" for s1
  proof (cases "connect rem env spec api_url")
    case (Inl e)
    then show ?thesis by simp
  next
    case (Inr proj)
    show ?thesis
    proof (cases "spec_path spec = []")
      case True
      have "follows_plan (and_then (fetch_storages ops out (storages proj) s1)
                       (listing_end (storages_error proj)))
             (map (line_of out) (concat (map (\<lambda>st. planned (Some (folder_name st)) st) (storages proj))) @ [])"
        by (intro follows_and_then fetch_storages_follows follows_listing_end)
      then show ?thesis using True Inr assms by (simp add: fetch_plan_def)
    next
      case False
      then show ?thesis using Inr assms
        by (cases "resolve rem proj (spec_path spec)") (simp_all add: fetch_plan_def walk_follows)
    qed
  qed
  show ?thesis
    unfolding p_fetch_def using assms
    by (simp del: and_then.simps) (intro follows_cons k)
qed

lemma consume_lines:
  "consume (map Line ls @ q)
   = (case consume q of None \<Rightarrow> None | Some (ls', err) \<Rightarrow> Some (ls @ ls', err))"
  by (induction ls) (auto split: option.splits)

lemma fetch_eq:
  "fetch ops rem env spec output_dir s =
     Some (fst (p_fetch ops rem env spec output_dir s),
           snd (snd (p_fetch ops rem env spec output_dir s)),
           fst (snd (p_fetch ops rem env spec output_dir s)))"
  by (cases "p_fetch ops rem env spec output_dir s"; cases "snd (snd (p_fetch ops rem env spec output_dir s))")
     (simp_all add: fetch_def p_fetch_with_error_def consume_lines)

lemma p_fetch_resolved:
  assumes api: "api_url_of (spec_host spec) = Inr api_url"
    and conn: "connect rem env spec api_url = Inr proj"
    and ne: "spec_path spec \<noteq> []"
    and r: "resolve rem proj (spec_path spec) = Inr st"
  shows "p_fetch ops rem env spec out s
         = and_then (emit (header_line (spec_path spec) (spec_project_id spec) api_url) s)
             (\<lambda>s. p_fetch_storage ops out None st s)"
  using assms by (simp add: p_fetch_def)

lemma p_fetch_all_storages:
  assumes api: "api_url_of (spec_host spec) = Inr api_url"
    and conn: "connect rem env spec api_url = Inr proj"
    and e: "spec_path spec = []"
  shows "p_fetch ops rem env spec out s
         = and_then (emit (header_line (spec_path spec) (spec_project_id spec) api_url) s)
             (\<lambda>s. and_then (fetch_storages ops out (storages proj) s)
                     (\<lambda>s. listing_end (storages_error proj) s))"
  using assms by (simp add: p_fetch_def)

text \<open>
  C2. Whatever \<^verbatim>\<open>_fetch\<close> does (\<open>ls\<close> the lines it put on the queue, \<open>err\<close> the
  exception that ended it, if any), the queue then holds these lines, the exception
  if there is one, and the end marker; and \<^verbatim>\<open>fetch\<close> returns: it yields exactly the
  lines \<open>ls\<close> and then raises \<open>err\<close>, or ends normally when there is none. No line
  follows the exception and no exception is dropped. In particular an exception of
  the connection or of the resolution of the sub-path is raised after the header line
  alone, with the file system untouched, and an exception of the walk (of a listing,
  of a name check, of the file system or of a download) is raised after the header
  line and the lines of the walk up to it.
\<close>

theorem fetch_lines_then_error:
  "(p_fetch ops rem env spec output_dir s = (ls, s', err) \<longrightarrow>
      p_fetch_with_error ops rem env spec output_dir s =
        (map Line ls @ (case err of Some e \<Rightarrow> [Exc e] | None \<Rightarrow> []) @ [EndMark], s')
      \<and> fetch ops rem env spec output_dir s = Some (ls, err, s'))
   \<and> (api_url_of (spec_host spec) = Inr api_url \<and> connect rem env spec api_url = Inl e \<longrightarrow>
        fetch ops rem env spec output_dir s
          = Some ([header_line (spec_path spec) (spec_project_id spec) api_url], Some e, s))
   \<and> (api_url_of (spec_host spec) = Inr api_url \<and> connect rem env spec api_url = Inr proj
        \<and> spec_path spec \<noteq> [] \<and> resolve rem proj (spec_path spec) = Inl e \<longrightarrow>
        fetch ops rem env spec output_dir s
          = Some ([header_line (spec_path spec) (spec_project_id spec) api_url], Some e, s))
   \<and> (api_url_of (spec_host spec) = Inr api_url \<and> connect rem env spec api_url = Inr proj
        \<and> spec_path spec \<noteq> [] \<and> resolve rem proj (spec_path spec) = Inr st
        \<and> p_fetch_storage ops output_dir None st s = (ws, s', Some e) \<longrightarrow>
        fetch ops rem env spec output_dir s
          = Some (header_line (spec_path spec) (spec_project_id spec) api_url # ws, Some e, s'))
   \<and> (api_url_of (spec_host spec) = Inr api_url \<and> connect rem env spec api_url = Inr proj
        \<and> spec_path spec = []
        \<and> fetch_storages ops output_dir (storages proj) s = (ws, s', Some e) \<longrightarrow>
        fetch ops rem env spec output_dir s
          = Some (header_line (spec_path spec) (spec_project_id spec) api_url # ws, Some e, s'))"
proof (intro conjI impI)
  assume "p_fetch ops rem env spec output_dir s = (ls, s', err)"
  then show "p_fetch_with_error ops rem env spec output_dir s =
        (map Line ls @ (case err of Some e \<Rightarrow> [Exc e] | None \<Rightarrow> []) @ [EndMark], s')"
    and "fetch ops rem env spec output_dir s = Some (ls, err, s')"
    by (simp_all add: fetch_eq p_fetch_with_error_def)
next
  assume "api_url_of (spec_host spec) = Inr api_url \<and> connect rem env spec api_url = Inl e"
  then show "fetch ops rem env spec output_dir s
          = Some ([header_line (spec_path spec) (spec_project_id spec) api_url], Some e, s)"
    by (simp add: fetch_eq p_fetch_def emit_def raise_def)
next
  assume "api_url_of (spec_host spec) = Inr api_url \<and> connect rem env spec api_url = Inr proj
        \<and> spec_path spec \<noteq> [] \<and> resolve rem proj (spec_path spec) = Inl e"
  then show "fetch ops rem env spec output_dir s
          = Some ([header_line (spec_path spec) (spec_project_id spec) api_url], Some e, s)"
    by (simp add: fetch_eq p_fetch_def emit_def raise_def)
next
  assume a: "api_url_of (spec_host spec) = Inr api_url \<and> connect rem env spec api_url = Inr proj
        \<and> spec_path spec \<noteq> [] \<and> resolve rem proj (spec_path spec) = Inr st
        \<and> p_fetch_storage ops output_dir None st s = (ws, s', Some e)"
  then have "p_fetch ops rem env spec output_dir s
             = (header_line (spec_path spec) (spec_project_id spec) api_url # ws, s', Some e)"
    by (simp add: p_fetch_resolved[of spec api_url rem env proj st] emit_def)
  then show "fetch ops rem env spec output_dir s
          = Some (header_line (spec_path spec) (spec_project_id spec) api_url # ws, Some e, s')"
    by (simp add: fetch_eq)
next
  assume a: "api_url_of (spec_host spec) = Inr api_url \<and> connect rem env spec api_url = Inr proj
        \<and> spec_path spec = []
        \<and> fetch_storages ops output_dir (storages proj) s = (ws, s', Some e)"
  then have "p_fetch ops rem env spec output_dir s
             = (header_line (spec_path spec) (spec_project_id spec) api_url # ws, s', Some e)"
    by (simp add: p_fetch_all_storages[of spec api_url rem env proj] emit_def)
  then show "fetch ops rem env spec output_dir s
          = Some (header_line (spec_path spec) (spec_project_id spec) api_url # ws, Some e, s')"
    by (simp add: fetch_eq)
qed

text \<open>
  C9, as the code has it. When the host's \<^verbatim>\<open>api\<close> value is a string, the lines of a
  fetch are one header line, which names the sub-path, the project id and the \<^verbatim>\<open>api\<close>
  value without its trailing slash if it has one, and then only \<^verbatim>\<open>Fetch:\<close> lines:
  those of the first files of the fetch plan, in its order, one line for each, and
  those of all its files when the fetch ends without an exception.
\<close>

theorem progress_stream_shape:
  assumes api: "subscript (spec_host spec) ''api'' = Inr (JStr api)"
    and f: "fetch ops rem env spec output_dir s = Some (ls, err, s')"
  shows "\<exists>rest. ls = header_line (spec_path spec) (spec_project_id spec)
                       (if endswith api ''/'' then butlast api else api) # rest
           \<and> (\<forall>l \<in> set rest. \<exists>remote_path local. l = fetch_line remote_path local output_dir)
           \<and> prefix rest (map (line_of output_dir) (fetch_plan rem env spec))
           \<and> (err = None \<longrightarrow> rest = map (line_of output_dir) (fetch_plan rem env spec))"
proof -
  let ?h = "header_line (spec_path spec) (spec_project_id spec)
                       (if endswith api ''/'' then butlast api else api)"
  let ?plan = "map (line_of output_dir) (fetch_plan rem env spec)"
  have a: "api_url_of (spec_host spec) = Inr (if endswith api ''/'' then butlast api else api)"
    using api by (simp add: api_url_of_def)
  have ls: "ls = fst (p_fetch ops rem env spec output_dir s)"
    and err: "err = snd (snd (p_fetch ops rem env spec output_dir s))"
    using f by (simp_all add: fetch_eq)
  from p_fetch_follows[OF a, of ops rem env output_dir s]
  have p: "prefix ls (?h # ?plan)" and e: "err = None \<longrightarrow> ls = ?h # ?plan"
    by (simp_all add: follows_plan_def ls err)
  have ne: "ls \<noteq> []"
    by (simp add: ls p_fetch_def a and_then_emit split: prod.splits)
  then obtain rest where r: "ls = ?h # rest" and pr: "prefix rest ?plan"
    using p by (cases ls) auto
  have "set rest \<subseteq> set ?plan" using pr by (rule set_mono_prefix)
  then have "\<forall>l \<in> set rest. \<exists>remote_path local. l = fetch_line remote_path local output_dir"
    by (fastforce simp: line_of_def)
  then show ?thesis using r pr e by auto
qed

lemma rstrip_slash_Nil [simp]: "rstrip_slash [] = []"
  by (simp add: rstrip_slash_def)

text \<open>
  C5. The sub-path, without its trailing slashes, has a slash; the connection, the
  project and the storage named before the first slash are found, and the client's
  \<^verbatim>\<open>find_by_path\<close> finds nothing for what follows the first slash. Then \<^verbatim>\<open>fetch\<close>
  yields the header line and no \<^verbatim>\<open>Fetch:\<close> line, raises the \<^verbatim>\<open>RuntimeError\<close> of the failed
  lookup, and leaves the file system as it was.
\<close>

theorem missing_segment_fails:
  assumes api: "api_url_of (spec_host spec) = Inr api_url"
    and conn: "connect rem env spec api_url = Inr proj"
    and p: "p = rstrip_slash (spec_path spec)"
    and slash: "CHR ''/'' \<in> set p"
    and st: "storage proj (take (index p CHR ''/'') p) = Inr st"
    and missing: "find_by_path rem st (drop (index p CHR ''/'' + 1) p) = Inr None"
  shows "fetch ops rem env spec output_dir s
         = Some ([header_line (spec_path spec) (spec_project_id spec) api_url],
                 Some (RuntimeError (''Could not find path '' @ p)), s)"
proof -
  have ne: "spec_path spec \<noteq> []" using p slash by auto
  have r: "resolve rem proj (spec_path spec) = Inl (RuntimeError (''Could not find path '' @ p))"
    using p slash st missing by (simp add: resolve_def Let_def)
  have "p_fetch ops rem env spec output_dir s
        = ([header_line (spec_path spec) (spec_project_id spec) api_url], s,
           Some (RuntimeError (''Could not find path '' @ p)))"
    using api conn ne r by (simp add: p_fetch_def emit_def raise_def)
  then show ?thesis by (simp add: fetch_eq)
qed

subsection \<open>Invalid names\<close>

lemma fetch_files_Cons_fun:
  "fetch_files ops out ld (f # rest)
   = (\<lambda>s. and_then (fetch_file ops out ld f s) (fetch_files ops out ld rest))"
  by (rule ext) simp

lemma fetch_folders_Cons_fun:
  "fetch_folders ops out ld (d # rest)
   = (\<lambda>s. if has_sep (folder_name d)
          then raise s (ValueError (''Folder.name cannot include path separators: ''
                                     @ folder_name d))
          else and_then (p_fetch_storage ops out (Some (local_path ld (folder_name d))) d s)
                 (fetch_folders ops out ld rest))"
  by (rule ext) simp

lemma fetch_files_invalid:
  assumes "has_sep (file_name f)"
  shows "fetch_files ops out ld (pre @ f # post) s
         = and_then (fetch_files ops out ld pre s)
             (\<lambda>s. raise s (ValueError (''File.name cannot include path separators: '' @ file_name f)))"
  using assms by (simp add: fetch_files_append fetch_files_Cons_fun fetch_file_def)

lemma fetch_folders_invalid:
  assumes "has_sep (folder_name d)"
  shows "fetch_folders ops out ld (pre @ d # post) s
         = and_then (fetch_folders ops out ld pre s)
             (\<lambda>s. raise s (ValueError (''Folder.name cannot include path separators: '' @ folder_name d)))"
  using assms by (simp add: fetch_folders_append fetch_folders_Cons_fun)

lemma listing_end_None [simp]: "listing_end None s = finish s"
  by (simp add: listing_end_def finish_def)

lemma and_then_finish_right [simp]: "and_then x finish = x"
  by (cases x; cases "snd (snd x)") (auto simp: finish_def)

lemma walk_completes_valid:
  "snd (snd (p_fetch_storage ops out ld t s)) = None \<Longrightarrow> valid_names t"
  and "snd (snd (fetch_folders ops out ld ds s)) = None
       \<Longrightarrow> list_all (\<lambda>d. \<not> has_sep (folder_name d) \<and> valid_names d) ds"
proof (induction ops out ld t s and ops out ld ds s rule: p_fetch_storage_fetch_folders.induct)
  case (1 ops output_dir local_dir nm fs ferr ds derr s)
  have f: "snd (snd (fetch_files ops output_dir local_dir fs s')) = None
           \<Longrightarrow> list_all (\<lambda>f. \<not> has_sep (file_name f)) fs" for s'
    by (induction fs arbitrary: s')
       (auto simp: and_then_err fetch_file_def raise_def split: if_splits)
  from "1.prems" show ?case
    using f "1.IH" by (auto simp: and_then_err split: if_splits)
next
  case (2 ops output_dir local_dir s)
  then show ?case by simp
next
  case (3 ops output_dir local_dir folder rest s)
  from "3.prems" show ?case
    using "3.IH" by (auto simp: and_then_err raise_def split: if_splits)
qed

text \<open>
  C6. A file whose name has a slash or a backslash, standing after the files \<open>pre\<close> in
  a listing: the loop over the files, and the walk of the folder, produce exactly the
  lines and the file system of the files \<open>pre\<close> and end with the \<^verbatim>\<open>ValueError\<close> for that
  name, unless one of the files \<open>pre\<close> raised before. Likewise a folder with such a
  name, standing after the folders \<open>pre'\<close>: the walk is the walk of the same folder with
  only the subfolders \<open>pre'\<close>, ended by the \<^verbatim>\<open>ValueError\<close>. An exception inside a
  subfolder ends the walk of the folders there, with nothing of what follows it. And a
  walk of a tree that has such a name anywhere below its root never ends without an
  exception.
\<close>

theorem invalid_name_aborts_walk:
  "(has_sep (file_name f) \<and> fetch_files ops out ld pre s = (ls, s', err) \<longrightarrow>
      fetch_files ops out ld (pre @ f # post) s
        = (ls, s', Some (case err of
                           None \<Rightarrow> ValueError (''File.name cannot include path separators: ''
                                                @ file_name f)
                         | Some e \<Rightarrow> e))
      \<and> p_fetch_storage ops out ld (Folder nm (pre @ f # post) ferr ds derr) s
        = (ls, s', Some (case err of
                           None \<Rightarrow> ValueError (''File.name cannot include path separators: ''
                                                @ file_name f)
                         | Some e \<Rightarrow> e)))
   \<and> (has_sep (folder_name d)
       \<and> p_fetch_storage ops out ld (Folder nm fs ferr pre' None) s = (ls, s', err) \<longrightarrow>
      p_fetch_storage ops out ld (Folder nm fs ferr (pre' @ d # post') derr) s
        = (ls, s', Some (case err of
                           None \<Rightarrow> ValueError (''Folder.name cannot include path separators: ''
                                                @ folder_name d)
                         | Some e \<Rightarrow> e)))
   \<and> (\<not> has_sep (folder_name d) \<and> fetch_folders ops out ld pre' s = (ls1, s1, None)
       \<and> p_fetch_storage ops out (Some (local_path ld (folder_name d))) d s1 = (ls2, s2, Some e)
       \<longrightarrow> fetch_folders ops out ld (pre' @ d # post') s = (ls1 @ ls2, s2, Some e))
   \<and> (\<not> valid_names t \<longrightarrow> snd (snd (p_fetch_storage ops out ld t s)) \<noteq> None)"
proof (intro conjI impI)
  let ?E = "ValueError (''File.name cannot include path separators: '' @ file_name f)"
  assume a: "has_sep (file_name f) \<and> fetch_files ops out ld pre s = (ls, s', err)"
  then have x: "fetch_files ops out ld (pre @ f # post) s
        = (ls, s', Some (case err of None \<Rightarrow> ?E | Some e \<Rightarrow> e))"
    by (cases err) (simp_all add: fetch_files_invalid raise_def)
  then show "fetch_files ops out ld (pre @ f # post) s
        = (ls, s', Some (case err of None \<Rightarrow> ?E | Some e \<Rightarrow> e))" .
  show "p_fetch_storage ops out ld (Folder nm (pre @ f # post) ferr ds derr) s
        = (ls, s', Some (case err of None \<Rightarrow> ?E | Some e \<Rightarrow> e))"
    by (simp add: x)
next
  let ?E = "ValueError (''Folder.name cannot include path separators: '' @ folder_name d)"
  assume a: "has_sep (folder_name d)
       \<and> p_fetch_storage ops out ld (Folder nm fs ferr pre' None) s = (ls, s', err)"
  have "p_fetch_storage ops out ld (Folder nm fs ferr (pre' @ d # post') derr) s
        = and_then (p_fetch_storage ops out ld (Folder nm fs ferr pre' None) s) (\<lambda>s. raise s ?E)"
    using conjunct1[OF a] by (simp add: fetch_folders_invalid and_then_assoc)
  then show "p_fetch_storage ops out ld (Folder nm fs ferr (pre' @ d # post') derr) s
        = (ls, s', Some (case err of None \<Rightarrow> ?E | Some e \<Rightarrow> e))"
    using conjunct2[OF a] by (cases err) (simp_all add: raise_def)
next
  assume a: "\<not> has_sep (folder_name d) \<and> fetch_folders ops out ld pre' s = (ls1, s1, None)
       \<and> p_fetch_storage ops out (Some (local_path ld (folder_name d))) d s1 = (ls2, s2, Some e)"
  then show "fetch_folders ops out ld (pre' @ d # post') s = (ls1 @ ls2, s2, Some e)"
    by (simp add: fetch_folders_append fetch_folders_Cons_fun)
next
  assume "\<not> valid_names t"
  then show "snd (snd (p_fetch_storage ops out ld t s)) \<noteq> None"
    using walk_completes_valid(1)[of ops out ld t s] by auto
qed

subsection \<open>Local paths and the file system\<close>









lemma mkdir_all_ok:
  "\<forall>q \<in> set qs. fs_files s q = None \<Longrightarrow>
   mkdir_all s qs = (s\<lparr>fs_dirs := fs_dirs s \<union> set qs\<rparr>, None)"
proof (induction qs arbitrary: s)
  case Nil
  then show ?case by simp
next
  case (Cons q qs)
  then show ?case by (auto simp: domIff)
qed

lemma ancestors_shorter: "q \<in> set (ancestors p) \<Longrightarrow> length q < length p"
  by (auto simp: ancestors_def)

lemma posix_makedirs_ok:
  assumes "\<forall>q \<in> set (p # ancestors p). fs_files s q = None" and "p \<notin> fs_dirs s"
    and "p \<noteq> []"
  shows "posix_makedirs s p = (s\<lparr>fs_dirs := fs_dirs s \<union> set (p # ancestors p)\<rparr>, None)"
proof -
  have "p \<notin> set (ancestors p)" using ancestors_shorter[of p p] by auto
  then show ?thesis
    using assms by (auto simp: posix_makedirs_def mkdir_all_ok domIff)
qed

lemma posix_fetch_file:
  assumes nm: "\<not> has_sep (file_name f)" and w: "snd (file_write_to f) = None"
    and d: "\<forall>q \<in> set (local_dir_path out ld # ancestors (local_dir_path out ld)).
              fs_files s q = None"
    and d0: "local_dir_path out ld \<noteq> []"
    and f0: "local_file_path out ld (file_name f) \<noteq> []"
            "last (local_file_path out ld (file_name f)) \<noteq> CHR ''/''"
    and f1: "local_file_path out ld (file_name f) \<notin> fs_dirs s"
    and f2: "local_file_path out ld (file_name f)
               \<notin> set (local_dir_path out ld # ancestors (local_dir_path out ld))"
  shows "\<exists>s'. fetch_file posix out ld f s
                = ([fetch_line (file_path f) (local_path ld (file_name f)) out], s', None)
            \<and> fs_files s' = (fs_files s)(local_file_path out ld (file_name f)
                                          \<mapsto> fst (file_write_to f))
            \<and> fs_dirs s' \<subseteq> fs_dirs s
                 \<union> set (local_dir_path out ld # ancestors (local_dir_path out ld))"
proof (cases "local_dir_path out ld \<in> fs_dirs s")
  case True
  then show ?thesis
    using nm w f0 f1
    by (auto simp: fetch_file_def posix_def posix_open_wb_def posix_write_def os_call_def
          emit_def)
next
  case False
  from posix_makedirs_ok[OF d False d0]
  show ?thesis
    using nm w f0 f1 f2 False
    by (simp add: fetch_file_def posix_def posix_open_wb_def posix_write_def os_call_def
          emit_def finish_def)
qed




lemma self_or_ancestor_length: "q \<in> set (p # ancestors p) \<Longrightarrow> length q \<le> length p"
  using ancestors_shorter[of q p] by auto

lemma os_path_join_relative:
  "\<exists>P. \<forall>b. \<not> startswith b ''/'' \<longrightarrow> os_path_join out b = P @ b"
proof (cases "out = [] \<or> endswith out ''/''")
  case True
  then have "\<forall>b. \<not> startswith b ''/'' \<longrightarrow> os_path_join out b = out @ b"
    by (auto simp: os_path_join_def)
  then show ?thesis by blast
next
  case False
  then have "\<forall>b. \<not> startswith b ''/'' \<longrightarrow> os_path_join out b = (out @ ''/'') @ b"
    by (auto simp: os_path_join_def)
  then show ?thesis by blast
qed

text \<open>
  C1. The project has the one storage \<^verbatim>\<open>osfstorage\<close> with the file \<^verbatim>\<open>a.txt\<close> and the
  folder \<^verbatim>\<open>dir\<close>, which has the file \<^verbatim>\<open>b.txt\<close>; the listings and the two downloads raise
  nothing; the sub-path is empty. On the file system, neither of the two directories
  to create, nor any ancestor of theirs, is a regular file, and neither of the two file
  paths is a directory. Then \<^verbatim>\<open>fetch\<close> yields the header line, the \<^verbatim>\<open>Fetch:\<close> line of
  \<^verbatim>\<open>osfstorage/a.txt\<close> and then that of \<^verbatim>\<open>osfstorage/dir/b.txt\<close>, raises nothing, and
  leaves the two files under the output directory with the bytes of the remote files.
\<close>

theorem fetch_round_trip:
  assumes api: "api_url_of (spec_host spec) = Inr api_url"
    and conn: "connect rem env spec api_url = Inr proj"
    and sub: "spec_path spec = []"
    and sts: "storages proj =
               [Folder ''osfstorage'' [File ''a.txt'' path_a (bytes_a, None)] None
                  [Folder ''dir'' [File ''b.txt'' path_b (bytes_b, None)] None [] None] None]"
    and ste: "storages_error proj = None"
    and free: "\<forall>d \<in> {os_path_join out ''osfstorage'', os_path_join out ''osfstorage/dir''}.
                 \<forall>q \<in> set (d # ancestors d). fs_files s q = None"
    and na: "os_path_join out ''osfstorage/a.txt'' \<notin> fs_dirs s"
    and nb: "os_path_join out ''osfstorage/dir/b.txt'' \<notin> fs_dirs s"
  shows "\<exists>s'. fetch posix rem env spec out s
               = Some ([header_line (spec_path spec) (spec_project_id spec) api_url,
                        fetch_line path_a ''osfstorage/a.txt'' out,
                        fetch_line path_b ''osfstorage/dir/b.txt'' out], None, s')
            \<and> fs_files s' (os_path_join out ''osfstorage/a.txt'') = Some bytes_a
            \<and> fs_files s' (os_path_join out ''osfstorage/dir/b.txt'') = Some bytes_b"
proof -
  let ?fa = "File ''a.txt'' path_a (bytes_a, None)"
  let ?fb = "File ''b.txt'' path_b (bytes_b, None)"
  let ?d1 = "os_path_join out ''osfstorage''"
  let ?d2 = "os_path_join out ''osfstorage/dir''"
  let ?f1 = "os_path_join out ''osfstorage/a.txt''"
  let ?f2 = "os_path_join out ''osfstorage/dir/b.txt''"
  obtain P where P: "\<forall>b. \<not> startswith b ''/'' \<longrightarrow> os_path_join out b = P @ b"
    using os_path_join_relative by blast
  have len: "length ?d1 = length P + 10" "length ?d2 = length P + 14"
            "length ?f1 = length P + 16" "length ?f2 = length P + 20"
    using P by (simp_all add: startswith_def)
  have lp: "local_path (Some ''osfstorage'') ''a.txt'' = ''osfstorage/a.txt''"
           "local_path (Some ''osfstorage'') ''dir'' = ''osfstorage/dir''"
           "local_path (Some ''osfstorage/dir'') ''b.txt'' = ''osfstorage/dir/b.txt''"
    by (simp_all add: local_path_def os_path_join_def startswith_def endswith_def)
  have ns: "\<not> has_sep ''a.txt''" "\<not> has_sep ''b.txt''" "\<not> has_sep ''dir''"
    by (simp_all add: has_sep_def)
  have a_free: "\<forall>q \<in> set (?d1 # ancestors ?d1). fs_files s q = None"
    using free by blast
  have shape: "?d1 \<noteq> []" "?d2 \<noteq> []" "?f1 \<noteq> []" "?f2 \<noteq> []"
              "last ?f1 \<noteq> CHR ''/''" "last ?f2 \<noteq> CHR ''/''"
    using P by (simp_all add: startswith_def)
  have a_nd: "?f1 \<notin> set (?d1 # ancestors ?d1)"
    using self_or_ancestor_length[of ?f1 ?d1] len by auto
  from posix_fetch_file[of ?fa out "Some ''osfstorage''" s]
  obtain s1 where A: "fetch_file posix out (Some ''osfstorage'') ?fa s
                        = ([fetch_line path_a ''osfstorage/a.txt'' out], s1, None)"
    and files1: "fs_files s1 = (fs_files s)(?f1 \<mapsto> bytes_a)"
    and dirs1: "fs_dirs s1 \<subseteq> fs_dirs s \<union> set (?d1 # ancestors ?d1)"
    using ns a_free na a_nd shape by (auto simp: lp local_dir_path_def local_file_path_def)
  have b_free: "\<forall>q \<in> set (?d2 # ancestors ?d2). fs_files s1 q = None"
  proof
    fix q assume q: "q \<in> set (?d2 # ancestors ?d2)"
    then have "q \<noteq> ?f1" using self_or_ancestor_length[of q ?d2] len by auto
    moreover have "fs_files s q = None" using free q by blast
    ultimately show "fs_files s1 q = None" by (simp add: files1)
  qed
  have b_nd: "?f2 \<notin> set (?d2 # ancestors ?d2)"
    using self_or_ancestor_length[of ?f2 ?d2] len by auto
  have b_nd1: "?f2 \<notin> set (?d1 # ancestors ?d1)"
    using self_or_ancestor_length[of ?f2 ?d1] len by auto
  have b_dirs: "?f2 \<notin> fs_dirs s1"
    using dirs1 nb b_nd1 by blast
  from posix_fetch_file[of ?fb out "Some ''osfstorage/dir''" s1]
  obtain s2 where B: "fetch_file posix out (Some ''osfstorage/dir'') ?fb s1
                        = ([fetch_line path_b ''osfstorage/dir/b.txt'' out], s2, None)"
    and files2: "fs_files s2 = (fs_files s1)(?f2 \<mapsto> bytes_b)"
    using ns b_free b_dirs b_nd shape
    by (auto simp: lp local_dir_path_def local_file_path_def)
  have ne: "?f1 \<noteq> ?f2" using len by auto
  have "p_fetch posix rem env spec out s
          = ([header_line [] (spec_project_id spec) api_url,
              fetch_line path_a ''osfstorage/a.txt'' out,
              fetch_line path_b ''osfstorage/dir/b.txt'' out], s2, None)"
    using api conn sub sts ste ns A B
    by (simp add: p_fetch_def emit_def finish_def lp)
  then have "p_fetch posix rem env spec out s
          = ([header_line (spec_path spec) (spec_project_id spec) api_url,
              fetch_line path_a ''osfstorage/a.txt'' out,
              fetch_line path_b ''osfstorage/dir/b.txt'' out], s2, None)"
    by (simp add: sub)
  then have "fetch posix rem env spec out s
               = Some ([header_line (spec_path spec) (spec_project_id spec) api_url,
                        fetch_line path_a ''osfstorage/a.txt'' out,
                        fetch_line path_b ''osfstorage/dir/b.txt'' out], None, s2)"
    by (simp add: fetch_eq)
  moreover have "fs_files s2 ?f1 = Some bytes_a" "fs_files s2 ?f2 = Some bytes_b"
    using ne by (simp_all add: files2 files1)
  ultimately show ?thesis by blast
qed

subsection \<open>The properties on the sample service\<close>

lemma sample_api: "api_url_of sample_host = Inr ''https://api.test.some.host.nii.ac.jp/v2''"
  by (simp add: api_url_of_def sample_host_def endswith_def)

lemma sample_api_spec:
  "api_url_of (spec_host (sample_spec pid sub)) = Inr ''https://api.test.some.host.nii.ac.jp/v2''"
  by (simp add: sample_spec_def sample_api)

lemma sample_connect:
  "connect sample_remote sample_env (sample_spec ''abc'' sub) api_url = Inr sample_project"
  by (simp add: connect_def token_of_def sample_spec_def sample_host_def sample_env_def
        sample_remote_def)

lemma sample_connect_unknown:
  "connect sample_remote sample_env (sample_spec ''zzz'' sub) api_url
   = Inl (ExternalError ''project not found'')"
  by (simp add: connect_def token_of_def sample_spec_def sample_host_def sample_env_def
        sample_remote_def)


lemma sample_spec_sel [simp]:
  "spec_path (sample_spec pid sub) = sub" "spec_project_id (sample_spec pid sub) = pid"
  "spec_host (sample_spec pid sub) = sample_host"
  by (simp_all add: sample_spec_def)

text \<open>C2 at a fetch of the unknown project \<^verbatim>\<open>zzz\<close>: the header line, then the exception.\<close>

theorem fetch_lines_then_error_witness:
  "fetch posix sample_remote sample_env (sample_spec ''zzz'' []) ''out'' empty_fs
   = Some ([header_line [] ''zzz'' ''https://api.test.some.host.nii.ac.jp/v2''],
           Some (ExternalError ''project not found''), empty_fs)"
proof -
  have h: "p_fetch posix sample_remote sample_env (sample_spec ''zzz'' []) ''out'' empty_fs
           = ([header_line [] ''zzz'' ''https://api.test.some.host.nii.ac.jp/v2''], empty_fs,
              Some (ExternalError ''project not found''))"
    by (simp add: p_fetch_def sample_api sample_connect_unknown emit_def raise_def)
  from fetch_lines_then_error[THEN conjunct1, rule_format, OF h] show ?thesis
    by (rule conjunct2)
qed

text \<open>C5 at the sub-path \<^verbatim>\<open>osfstorage/missing/segment\<close> of the sample project.\<close>

theorem missing_segment_fails_witness:
  "fetch posix sample_remote sample_env (sample_spec ''abc'' ''osfstorage/missing/segment'')
     ''out'' empty_fs
   = Some ([header_line ''osfstorage/missing/segment'' ''abc''
              ''https://api.test.some.host.nii.ac.jp/v2''],
           Some (RuntimeError ''Could not find path osfstorage/missing/segment''), empty_fs)"
proof -
  let ?spec = "sample_spec ''abc'' ''osfstorage/missing/segment''"
  have p: "''osfstorage/missing/segment'' = rstrip_slash (spec_path ?spec)"
    by (simp add: rstrip_slash_def)
  have slash: "CHR ''/'' \<in> set ''osfstorage/missing/segment''" by simp
  have st: "storage sample_project
              (take (index ''osfstorage/missing/segment'' CHR ''/'') ''osfstorage/missing/segment'')
            = Inr sample_storage"
    by (simp add: index_def sample_project_def)
  have missing: "find_by_path sample_remote sample_storage
              (drop (index ''osfstorage/missing/segment'' CHR ''/'' + 1)
                 ''osfstorage/missing/segment'') = Inr None"
    by (simp add: index_def sample_remote_def sample_storage_def)
  from missing_segment_fails[OF sample_api_spec sample_connect p slash st missing,
         of posix "''out''" empty_fs]
  show ?thesis by simp
qed

lemma sample_ok_file:
  "fetch_files posix ''out'' None [File ''ok.txt'' ''/ok.txt'' (''X'', None)] empty_fs
   = ([fetch_line ''/ok.txt'' ''ok.txt'' ''out''],
      \<lparr>fs_dirs = {''out''}, fs_files = [''out/ok.txt'' \<mapsto> ''X'']\<rparr>, None)"
  by (simp add: fetch_file_def has_sep_def posix_def posix_makedirs_def posix_open_wb_def
        posix_write_def ancestors_def empty_fs_def os_call_def emit_def finish_def
        local_dir_path_def local_file_path_def local_path_def os_path_join_def
        startswith_def endswith_def)

text \<open>
  C6 at three files of which the second is named \<^verbatim>\<open>a/b\<close>: the first is copied, the
  second raises, the third is never looked at.
\<close>

theorem invalid_name_aborts_walk_witness:
  "fetch_files posix ''out'' None
     ([File ''ok.txt'' ''/ok.txt'' (''X'', None)] @ File ''a/b'' ''/a/b'' (''Y'', None)
        # [File ''z.txt'' ''/z.txt'' (''Z'', None)]) empty_fs
   = ([fetch_line ''/ok.txt'' ''ok.txt'' ''out''],
      \<lparr>fs_dirs = {''out''}, fs_files = [''out/ok.txt'' \<mapsto> ''X'']\<rparr>,
      Some (ValueError ''File.name cannot include path separators: a/b''))"
proof -
  have b: "has_sep (file_name (File ''a/b'' ''/a/b'' (''Y'', None)))"
    by (simp add: has_sep_def)
  from invalid_name_aborts_walk[THEN conjunct1, rule_format, OF conjI[OF b sample_ok_file],
         THEN conjunct1]
  show ?thesis by simp
qed

lemma sample_fetch:
  "p_fetch posix sample_remote sample_env (sample_spec ''abc'' []) ''out'' empty_fs
   = ([header_line [] ''abc'' ''https://api.test.some.host.nii.ac.jp/v2'',
       fetch_line ''/a.txt'' ''osfstorage/a.txt'' ''out'',
       fetch_line ''/dir/b.txt'' ''osfstorage/dir/b.txt'' ''out''],
      \<lparr>fs_dirs = {''out/osfstorage/dir'', ''out/osfstorage'', ''out''},
       fs_files = [''out/osfstorage/a.txt'' \<mapsto> ''AAA'', ''out/osfstorage/dir/b.txt'' \<mapsto> ''BB'']\<rparr>,
      None)"
  by (simp add: p_fetch_def sample_api sample_connect sample_project_def sample_storage_def
        fetch_file_def has_sep_def posix_def posix_makedirs_def posix_open_wb_def
        posix_write_def ancestors_def empty_fs_def os_call_def emit_def finish_def
        local_dir_path_def local_file_path_def local_path_def os_path_join_def
        startswith_def endswith_def insert_commute)


text \<open>C9 at the fetch of the whole sample project.\<close>

theorem progress_stream_shape_witness:
  "map (line_of ''out'') (fetch_plan sample_remote sample_env (sample_spec ''abc'' []))
   = [fetch_line ''/a.txt'' ''osfstorage/a.txt'' ''out'',
      fetch_line ''/dir/b.txt'' ''osfstorage/dir/b.txt'' ''out'']"
proof -
  have api: "subscript (spec_host (sample_spec ''abc'' [])) ''api''
             = Inr (JStr ''https://api.test.some.host.nii.ac.jp/v2/'')"
    by (simp add: sample_host_def)
  have f: "fetch posix sample_remote sample_env (sample_spec ''abc'' []) ''out'' empty_fs
           = Some ([header_line [] ''abc'' ''https://api.test.some.host.nii.ac.jp/v2'',
                    fetch_line ''/a.txt'' ''osfstorage/a.txt'' ''out'',
                    fetch_line ''/dir/b.txt'' ''osfstorage/dir/b.txt'' ''out''], None,
                   \<lparr>fs_dirs = {''out/osfstorage/dir'', ''out/osfstorage'', ''out''},
                    fs_files = [''out/osfstorage/a.txt'' \<mapsto> ''AAA'',
                                ''out/osfstorage/dir/b.txt'' \<mapsto> ''BB'']\<rparr>)"
    by (simp add: fetch_eq sample_fetch)
  from progress_stream_shape[OF api f] show ?thesis by auto
qed

text \<open>
  C9 as stated fails: the host's \<^verbatim>\<open>api\<close> value ends in a slash, and the header line
  shows it without.
\<close>

theorem header_line_drops_trailing_slash:
  "subscript (spec_host (sample_spec ''abc'' [])) ''api''
     = Inr (JStr ''https://api.test.some.host.nii.ac.jp/v2/'')
   \<and> fetch posix sample_remote sample_env (sample_spec ''abc'' []) ''out'' empty_fs
     = Some ([header_line [] ''abc'' ''https://api.test.some.host.nii.ac.jp/v2'',
              fetch_line ''/a.txt'' ''osfstorage/a.txt'' ''out'',
              fetch_line ''/dir/b.txt'' ''osfstorage/dir/b.txt'' ''out''], None,
             \<lparr>fs_dirs = {''out/osfstorage/dir'', ''out/osfstorage'', ''out''},
              fs_files = [''out/osfstorage/a.txt'' \<mapsto> ''AAA'',
                          ''out/osfstorage/dir/b.txt'' \<mapsto> ''BB'']\<rparr>)
   \<and> header_line [] ''abc'' ''https://api.test.some.host.nii.ac.jp/v2''
     \<noteq> header_line [] ''abc'' ''https://api.test.some.host.nii.ac.jp/v2/''"
  by (simp add: fetch_eq sample_fetch header_line_def sample_host_def)


text \<open>C1 at the sample project, fetched into \<^verbatim>\<open>out\<close> on an empty file system.\<close>

theorem fetch_round_trip_witness:
  "\<exists>s'. fetch posix sample_remote sample_env (sample_spec ''abc'' []) ''out'' empty_fs
           = Some ([header_line [] ''abc'' ''https://api.test.some.host.nii.ac.jp/v2'',
                    fetch_line ''/a.txt'' ''osfstorage/a.txt'' ''out'',
                    fetch_line ''/dir/b.txt'' ''osfstorage/dir/b.txt'' ''out''], None, s')
        \<and> fs_files s' ''out/osfstorage/a.txt'' = Some ''AAA''
        \<and> fs_files s' ''out/osfstorage/dir/b.txt'' = Some ''BB''"
proof -
  let ?spec = "sample_spec ''abc'' []"
  have sub: "spec_path ?spec = []" by simp
  have sts: "storages sample_project =
               [Folder ''osfstorage'' [File ''a.txt'' ''/a.txt'' (''AAA'', None)] None
                  [Folder ''dir'' [File ''b.txt'' ''/dir/b.txt'' (''BB'', None)] None [] None] None]"
    by (simp add: sample_project_def sample_storage_def)
  have ste: "storages_error sample_project = None"
    by (simp add: sample_project_def)
  have free: "\<forall>d \<in> {os_path_join ''out'' ''osfstorage'', os_path_join ''out'' ''osfstorage/dir''}.
                 \<forall>q \<in> set (d # ancestors d). fs_files empty_fs q = None"
    by (simp add: empty_fs_def)
  have na: "os_path_join ''out'' ''osfstorage/a.txt'' \<notin> fs_dirs empty_fs"
    and nb: "os_path_join ''out'' ''osfstorage/dir/b.txt'' \<notin> fs_dirs empty_fs"
    by (simp_all add: empty_fs_def)
  from fetch_round_trip[OF sample_api_spec sample_connect sub sts ste free na nb]
  show ?thesis
    by (simp add: os_path_join_def startswith_def endswith_def)
qed

end
